theory Spec2Isabelle
  imports Main "HOL-Library.Word"
begin

unbundle bit_operations_syntax

section \<open>Data model of \<^verbatim>\<open>rrecomp.cpp\<close>\<close>

type_synonym u8 = "8 word"
type_synonym u32 = "32 word"
type_synonym u64 = "64 word"

text \<open>
  Every way the C++ program stops early is a value of \<open>error\<close>: a failed \<^verbatim>\<open>assert\<close>,
  \<^verbatim>\<open>exit(EXIT_FAILURE)\<close>, \<^verbatim>\<open>abort()\<close>, and an index outside a \<^verbatim>\<open>vector\<close> or a
  section buffer (undefined behaviour in C++, which the model refuses to continue from).
\<close>

datatype error = AssertFailed | ExitFailure | Abort | OutOfBounds

definition bindE :: "error + 'a \<Rightarrow> ('a \<Rightarrow> error + 'b) \<Rightarrow> error + 'b" where
  "bindE m f = (case m of Inl e \<Rightarrow> Inl e | Inr x \<Rightarrow> f x)"

text \<open>
  \<^verbatim>\<open>RabbitizerInstrId\<close> is an enumeration of the disassembler library with several
  hundred enumerators; an enumerator is modelled by its name (the part after
  \<^verbatim>\<open>RABBITIZER_INSTR_ID_\<close>), so two ids are equal iff their names are.
\<close>

type_synonym instr_id = string

text \<open>
  The fields of \<^verbatim>\<open>RabbitizerInstrDescriptor\<close> that the program reads, directly or
  through \<^verbatim>\<open>RabbitizerInstruction_hasOperandAlias\<close> (\<open>has_rs\<close>, \<open>has_rt\<close>).
\<close>

record descriptor =
  modifiesRt :: bool
  modifiesRd :: bool
  isJump :: bool
  isIType :: bool
  has_rs :: bool
  has_rt :: bool

record RabbitizerInstruction =
  word :: u32
  uniqueId :: instr_id
  descriptor :: descriptor
  vram :: u32

text \<open>
  The library itself is not part of the program: its descriptor table and the three
  decoding functions the program calls are parameters of the model.
\<close>

record rabbitizer =
  Descriptors :: "instr_id \<Rightarrow> descriptor"
  getProcessedImmediate :: "RabbitizerInstruction \<Rightarrow> u32"
  getInstrIndexAsVram :: "RabbitizerInstruction \<Rightarrow> u32"
  getBranchOffset :: "RabbitizerInstruction \<Rightarrow> u32"

text \<open>The register fields of a MIPS instruction word (the library's \<^verbatim>\<open>RAB_INSTR_GET_*\<close>).\<close>

definition RAB_INSTR_GET_rs :: "RabbitizerInstruction \<Rightarrow> nat" where
  "RAB_INSTR_GET_rs instr = unat (drop_bit 21 (word instr) AND 31)"

definition RAB_INSTR_GET_rt :: "RabbitizerInstruction \<Rightarrow> nat" where
  "RAB_INSTR_GET_rt instr = unat (drop_bit 16 (word instr) AND 31)"

definition RAB_INSTR_GET_rd :: "RabbitizerInstruction \<Rightarrow> nat" where
  "RAB_INSTR_GET_rd instr = unat (drop_bit 11 (word instr) AND 31)"

definition RAB_INSTR_PACK_rs :: "u32 \<Rightarrow> nat \<Rightarrow> u32" where
  "RAB_INSTR_PACK_rs w v = (w AND NOT (push_bit 21 31)) OR push_bit 21 (of_nat v AND 31)"

text \<open>\<^verbatim>\<open>RabbitizerRegister_GprO32\<close>: the O32 register numbers, in the order of \<^verbatim>\<open>r_r\<close>.\<close>

definition REG_zero :: nat where "REG_zero = 0"
definition REG_at :: nat where "REG_at = 1"
definition REG_v0 :: nat where "REG_v0 = 2"
definition REG_v1 :: nat where "REG_v1 = 3"
definition REG_a0 :: nat where "REG_a0 = 4"
definition REG_a1 :: nat where "REG_a1 = 5"
definition REG_a2 :: nat where "REG_a2 = 6"
definition REG_a3 :: nat where "REG_a3 = 7"
definition REG_t0 :: nat where "REG_t0 = 8"
definition REG_t1 :: nat where "REG_t1 = 9"
definition REG_t2 :: nat where "REG_t2 = 10"
definition REG_t3 :: nat where "REG_t3 = 11"
definition REG_t4 :: nat where "REG_t4 = 12"
definition REG_t5 :: nat where "REG_t5 = 13"
definition REG_t6 :: nat where "REG_t6 = 14"
definition REG_t7 :: nat where "REG_t7 = 15"
definition REG_t8 :: nat where "REG_t8 = 24"
definition REG_t9 :: nat where "REG_t9 = 25"
definition REG_gp :: nat where "REG_gp = 28"
definition REG_sp :: nat where "REG_sp = 29"
definition REG_ra :: nat where "REG_ra = 31"
definition REG_hi :: nat where "REG_hi = REG_ra + 1"
definition REG_lo :: nat where "REG_lo = REG_ra + 2"

lemmas REG_defs = REG_zero_def REG_at_def REG_v0_def REG_v1_def REG_a0_def REG_a1_def
  REG_a2_def REG_a3_def REG_t0_def REG_t1_def REG_t2_def REG_t3_def REG_t4_def REG_t5_def
  REG_t6_def REG_t7_def REG_t8_def REG_t9_def REG_gp_def REG_sp_def REG_ra_def REG_hi_def
  REG_lo_def

record Edge =
  edge_i :: nat
  function_entry :: bool
  function_exit :: bool
  extern_function :: bool
  function_pointer :: bool

record RInsn =
  instruction :: RabbitizerInstruction
  is_global_got_memop :: bool
  no_following_successor :: bool
  patched :: bool
  patched_addr :: u32
  linked_insn :: int
  linked_value :: u32
  jtbl_addr :: u32
  num_cases :: u32
  index_reg :: nat
  successors :: "Edge list"
  predecessors :: "Edge list"
  b_liveout :: u64
  b_livein :: u64
  f_livein :: u64
  f_liveout :: u64

record Function =
  returns :: "u32 list"
  end_addr :: u32
  nargs :: nat
  nret :: nat
  v0_in :: bool
  referenced_by_function_pointer :: bool

text \<open>
  The file-scope variables. \<^verbatim>\<open>functions\<close> (here \<open>functions_tbl\<close>) is a \<^verbatim>\<open>std::map\<close>: an association list
  in ascending key order; \<^verbatim>\<open>symbol_names\<close> is only ever looked up;
  \<open>rodata_section_null\<close> says that the pointer \<^verbatim>\<open>rodata_section\<close> is \<^verbatim>\<open>NULL\<close>.
\<close>

record state =
  text_vaddr :: u32
  text_section_len :: u32
  rodata_section :: "u8 list"
  rodata_section_null :: bool
  rodata_section_len :: u32
  rodata_vaddr :: u32
  rinsns :: "RInsn list"
  label_addresses :: "u32 set"
  got_globals :: "u32 list"
  got_locals :: "u32 list"
  gp_value :: u32
  gp_value_adj :: u32
  symbol_names :: "u32 \<Rightarrow> string option"
  data_function_pointers :: "(u32 \<times> u32) list"
  li_function_pointers :: "u32 list"
  functions_tbl :: "(u32 \<times> Function) list"
  main_addr :: u32
  mcount_addr :: u32

definition addr_to_i :: "state \<Rightarrow> u32 \<Rightarrow> nat" where
  "addr_to_i st addr = unat ((addr - text_vaddr st) div 4)"

section \<open>Control-flow graph construction\<close>

text \<open>
  \<^verbatim>\<open>r_add_edge\<close>: one \<^verbatim>\<open>push_back\<close> on \<^verbatim>\<open>rinsns[from].successors\<close>, then one on
  \<^verbatim>\<open>rinsns[to].predecessors\<close> (the second sees the first when \<open>from = to\<close>).
\<close>

definition r_add_edge ::
  "nat \<Rightarrow> nat \<Rightarrow> bool \<Rightarrow> bool \<Rightarrow> bool \<Rightarrow> bool \<Rightarrow> RInsn list \<Rightarrow> error + RInsn list" where
  "r_add_edge from_i to_i fentry fexit ext fptr rs =
     (let fe = \<lparr>edge_i = to_i, function_entry = fentry, function_exit = fexit,
                 extern_function = ext, function_pointer = fptr\<rparr>;
          be = \<lparr>edge_i = from_i, function_entry = fentry, function_exit = fexit,
                 extern_function = ext, function_pointer = fptr\<rparr>
      in if from_i < length rs \<and> to_i < length rs then
           (let rs1 = rs[from_i := (rs ! from_i)\<lparr>successors := successors (rs ! from_i) @ [fe]\<rparr>];
                rs2 = rs1[to_i := (rs1 ! to_i)\<lparr>predecessors := predecessors (rs1 ! to_i) @ [be]\<rparr>]
            in Inr rs2)
         else Inl OutOfBounds)"


definition set_no_following_successor :: "nat \<Rightarrow> RInsn list \<Rightarrow> error + RInsn list" where
  "set_no_following_successor k rs =
     (if k < length rs then Inr (rs[k := (rs ! k)\<lparr>no_following_successor := True\<rparr>])
      else Inl OutOfBounds)"

text \<open>\<^verbatim>\<open>read_u32_be(buf + off)\<close>: four bytes, most significant first.\<close>

definition read_u32_be :: "u8 list \<Rightarrow> nat \<Rightarrow> error + u32" where
  "read_u32_be buf off =
     (if off + 3 < length buf then
        Inr (push_bit 24 (ucast (buf ! off)) + push_bit 16 (ucast (buf ! (off + 1)))
             + push_bit 8 (ucast (buf ! (off + 2))) + ucast (buf ! (off + 3)))
      else Inl OutOfBounds)"

text \<open>
  The branch target of \<^verbatim>\<open>r_pass3\<close>:
  \<^verbatim>\<open>addr_to_i(insn.patched ? insn.patched_addr : insn.instruction.vram + getBranchOffset(...))\<close>.
\<close>

definition branch_target_i :: "rabbitizer \<Rightarrow> state \<Rightarrow> RInsn \<Rightarrow> nat" where
  "branch_target_i L st insn =
     addr_to_i st (if patched insn then patched_addr insn
                   else vram (instruction insn) + getBranchOffset L (instruction insn))"

definition cond_branch_ids :: "instr_id list" where
  "cond_branch_ids = [''cpu_beq'', ''cpu_bgez'', ''cpu_bgtz'', ''cpu_blez'', ''cpu_bltz'',
     ''cpu_bne'', ''cpu_beqz'', ''cpu_bnez'', ''cpu_bc1f'', ''cpu_bc1t'']"

definition likely_branch_ids :: "instr_id list" where
  "likely_branch_ids = [''cpu_beql'', ''cpu_bgezl'', ''cpu_bgtzl'', ''cpu_blezl'',
     ''cpu_bltzl'', ''cpu_bnel'', ''cpu_bc1fl'', ''cpu_bc1tl'']"

text \<open>The loop over the cases of a jump table (\<^verbatim>\<open>case RABBITIZER_INSTR_ID_cpu_jr\<close>).\<close>

fun jtbl_edges :: "state \<Rightarrow> nat \<Rightarrow> nat \<Rightarrow> nat list \<Rightarrow> RInsn list \<Rightarrow> error + RInsn list" where
  "jtbl_edges st i jtbl_pos [] rs = Inr rs"
| "jtbl_edges st i jtbl_pos (j # js) rs =
     bindE (read_u32_be (rodata_section st) (jtbl_pos + j * 4)) (\<lambda>w.
     bindE (r_add_edge (i + 1) (addr_to_i st (w + gp_value st)) False False False False rs)
       (jtbl_edges st i jtbl_pos js))"

text \<open>The loop over the returns of a called function (\<^verbatim>\<open>case RABBITIZER_INSTR_ID_cpu_jal\<close>).\<close>

fun return_edges :: "state \<Rightarrow> nat \<Rightarrow> u32 list \<Rightarrow> RInsn list \<Rightarrow> error + RInsn list" where
  "return_edges st i [] rs = Inr rs"
| "return_edges st i (ret_instr # rets) rs =
     bindE (r_add_edge (addr_to_i st ret_instr) (i + 2) False True False False rs)
       (return_edges st i rets)"

definition jal_dest :: "rabbitizer \<Rightarrow> RInsn \<Rightarrow> u32" where
  "jal_dest L insn =
     (if patched insn then patched_addr insn else getInstrIndexAsVram L (instruction insn))"

definition is_internal_call :: "state \<Rightarrow> u32 \<Rightarrow> bool" where
  "is_internal_call st dest \<longleftrightarrow>
     mcount_addr st < dest \<and> text_vaddr st \<le> dest \<and> dest < text_vaddr st + text_section_len st"

text \<open>
  One iteration of the loop of \<^verbatim>\<open>r_pass3\<close>, for the instruction at index \<open>i\<close>. Sizes
  are \<^verbatim>\<open>size_t\<close> in the source (64 bits on the hosts the tool is built for), so
  \<open>jtbl_pos + num_cases * 4\<close> does not wrap.
\<close>

definition r_pass3_insn :: "rabbitizer \<Rightarrow> state \<Rightarrow> nat \<Rightarrow> RInsn list \<Rightarrow> error + RInsn list" where
  "r_pass3_insn L st i rs =
     (let insn = rs ! i; uid = uniqueId (instruction insn) in
      if no_following_successor insn then Inr rs
      else if uid \<in> set cond_branch_ids then
        bindE (r_add_edge i (i + 1) False False False False rs)
          (r_add_edge (i + 1) (branch_target_i L st insn) False False False False)
      else if uid \<in> set likely_branch_ids then
        bindE (r_add_edge i (i + 1) False False False False rs) (\<lambda>rs.
        bindE (r_add_edge i (i + 2) False False False False rs) (\<lambda>rs.
        bindE (r_add_edge (i + 1) (branch_target_i L st insn) False False False False rs)
          (set_no_following_successor (i + 1))))
      else if uid = ''cpu_b'' \<or> uid = ''cpu_j'' then
        bindE (r_add_edge i (i + 1) False False False False rs) (\<lambda>rs.
        bindE (r_add_edge (i + 1) (branch_target_i L st insn) False False False False rs)
          (set_no_following_successor (i + 1)))
      else if uid = ''cpu_jr'' then
        bindE (r_add_edge i (i + 1) False False False False rs) (\<lambda>rs.
        bindE (if jtbl_addr insn \<noteq> 0 then
                 (let jtbl_pos = jtbl_addr insn - rodata_vaddr st in
                  if jtbl_pos < rodata_section_len st \<and>
                     unat jtbl_pos + unat (num_cases insn) * 4 \<le> unat (rodata_section_len st)
                  then jtbl_edges st i (unat jtbl_pos) [0..<unat (num_cases insn)] rs
                  else Inl AssertFailed)
               else if RAB_INSTR_GET_rs (instruction insn) = REG_ra then Inr rs
               else Inl AssertFailed)
          (set_no_following_successor (i + 1)))
      else if uid = ''cpu_jal'' then
        bindE (r_add_edge i (i + 1) False False False False rs) (\<lambda>rs.
        bindE (let dest = jal_dest L insn in
               if is_internal_call st dest then
                 bindE (r_add_edge (i + 1) (addr_to_i st dest) True False False False rs) (\<lambda>rs.
                 case map_of (functions_tbl st) dest of
                   None \<Rightarrow> Inl AssertFailed
                 | Some f \<Rightarrow> return_edges st i (returns f) rs)
               else r_add_edge (i + 1) (i + 2) False False True False rs)
          (set_no_following_successor (i + 1)))
      else if uid = ''cpu_jalr'' then
        bindE (r_add_edge i (i + 1) False False False False rs) (\<lambda>rs.
        bindE (r_add_edge (i + 1) (i + 2) False False False True rs)
          (set_no_following_successor (i + 1)))
      else r_add_edge i (i + 1) False False False False rs)"

fun r_pass3_loop :: "rabbitizer \<Rightarrow> state \<Rightarrow> nat list \<Rightarrow> RInsn list \<Rightarrow> error + RInsn list" where
  "r_pass3_loop L st [] rs = Inr rs"
| "r_pass3_loop L st (i # is) rs = bindE (r_pass3_insn L st i rs) (r_pass3_loop L st is)"

definition r_pass3 :: "rabbitizer \<Rightarrow> state \<Rightarrow> error + state" where
  "r_pass3 L st =
     bindE (r_pass3_loop L st [0..<length (rinsns st)] (rinsns st))
       (\<lambda>rs. Inr (st\<lparr>rinsns := rs\<rparr>))"


section \<open>A concrete stand-in for the disassembler library\<close>

text \<open>
  The general theorems below hold for every library \<open>L\<close>. The examples need one: the
  standard MIPS decoding of the handful of instructions they use (\<^verbatim>\<open>lw\<close>, \<^verbatim>\<open>lui\<close>,
  \<^verbatim>\<open>addiu\<close> and \<^verbatim>\<open>ori\<close> write \<open>rt\<close>; \<^verbatim>\<open>addu\<close>, \<^verbatim>\<open>move\<close> and \<^verbatim>\<open>jalr\<close>
  write \<open>rd\<close>; immediates are the low 16 bits, sign-extended except for \<^verbatim>\<open>ori\<close>;
  every other instruction of the examples reads and writes no general register).
\<close>

definition mips_descr :: "instr_id \<Rightarrow> descriptor" where
  "mips_descr uid =
     \<lparr>modifiesRt = (uid \<in> set [''cpu_lw'', ''cpu_lui'', ''cpu_addiu'', ''cpu_ori'']),
      modifiesRd = (uid \<in> set [''cpu_addu'', ''cpu_move'', ''cpu_jalr'']),
      isJump = (uid \<in> set [''cpu_j'', ''cpu_jal'', ''cpu_jr'', ''cpu_jalr'']),
      isIType = (uid \<in> set [''cpu_lw'', ''cpu_lui'', ''cpu_addiu'', ''cpu_ori'', ''cpu_beq'']),
      has_rs = (uid \<in> set [''cpu_lw'', ''cpu_addiu'', ''cpu_ori'', ''cpu_addu'', ''cpu_move'',
                              ''cpu_jr'', ''cpu_jalr'', ''cpu_beq'']),
      has_rt = (uid \<in> set [''cpu_lw'', ''cpu_lui'', ''cpu_addiu'', ''cpu_ori'', ''cpu_addu'',
                              ''cpu_mtc1'', ''cpu_beq''])\<rparr>"

definition mips_lib :: rabbitizer where
  "mips_lib =
     \<lparr>Descriptors = mips_descr,
      getProcessedImmediate = (\<lambda>instr.
         if uniqueId instr = ''cpu_ori'' then word instr AND 0xFFFF
         else signed_take_bit 15 (word instr AND 0xFFFF)),
      getInstrIndexAsVram = (\<lambda>instr.
         push_bit 2 (word instr AND 0x3FFFFFF) OR (vram instr AND 0xF0000000)),
      getBranchOffset = (\<lambda>instr. signed_take_bit 15 (word instr AND 0xFFFF) * 4 + 4)\<rparr>"

text \<open>
  An instruction as \<^verbatim>\<open>r_disassemble\<close> leaves it: every field of \<^verbatim>\<open>RInsn()\<close> zero
  except \<^verbatim>\<open>linked_insn = -1\<close>; and the sentinel NOP it appends after the last
  instruction, whose only non-zero field is \<^verbatim>\<open>no_following_successor\<close>.
\<close>

definition fresh_insn :: "instr_id \<Rightarrow> u32 \<Rightarrow> u32 \<Rightarrow> RInsn" where
  "fresh_insn uid w v =
     \<lparr>instruction = \<lparr>word = w, uniqueId = uid, descriptor = mips_descr uid, vram = v\<rparr>,
      is_global_got_memop = False, no_following_successor = False, patched = False,
      patched_addr = 0, linked_insn = - 1, linked_value = 0, jtbl_addr = 0, num_cases = 0,
      index_reg = 0, successors = [], predecessors = [], b_liveout = 0, b_livein = 0,
      f_livein = 0, f_liveout = 0\<rparr>"

definition sentinel_insn :: "u32 \<Rightarrow> RInsn" where
  "sentinel_insn v = (fresh_insn ''cpu_nop'' 0 v)\<lparr>no_following_successor := True, linked_insn := 0\<rparr>"

definition empty_Function :: Function where
  "empty_Function = \<lparr>returns = [], end_addr = 0, nargs = 0, nret = 0, v0_in = False,
     referenced_by_function_pointer = False\<rparr>"

definition example_state :: "RInsn list \<Rightarrow> (u32 \<times> Function) list \<Rightarrow> state" where
  "example_state rs fs =
     \<lparr>text_vaddr = 0x400000, text_section_len = of_nat (4 * (length rs - 1)),
      rodata_section = [], rodata_section_null = False, rodata_section_len = 0,
      rodata_vaddr = 0x10000000,
      rinsns = rs, label_addresses = {}, got_globals = [], got_locals = [],
      gp_value = 0x10008000, gp_value_adj = 0x7FF0, symbol_names = (\<lambda>a. None),
      data_function_pointers = [], li_function_pointers = [], functions_tbl = fs,
      main_addr = 0x400000, mcount_addr = 0\<rparr>"

section \<open>Return collection (\<^verbatim>\<open>r_pass2\<close>)\<close>

text \<open>
  \<^verbatim>\<open>functions[addr]\<close>: \<^verbatim>\<open>std::map::operator[]\<close> inserts a value-initialised
  \<^verbatim>\<open>Function\<close> when the key is absent.
\<close>

definition touch_function :: "(u32 \<times> Function) list \<Rightarrow> u32 \<Rightarrow> (u32 \<times> Function) list" where
  "touch_function tbl addr =
     (if map_of tbl addr = None then insort_key (\<lambda>p. unat (fst p)) (addr, empty_Function) tbl
      else tbl)"

definition function_at :: "(u32 \<times> Function) list \<Rightarrow> u32 \<Rightarrow> Function" where
  "function_at tbl addr = (case map_of tbl addr of None \<Rightarrow> empty_Function | Some f \<Rightarrow> f)"













section \<open>Properties of the control-flow graph\<close>


lemma bindE_Inr: "bindE m f = Inr y \<longleftrightarrow> (\<exists>x. m = Inr x \<and> f x = Inr y)"
  by (cases m) (simp_all add: bindE_def)

definition mk_edge :: "nat \<Rightarrow> bool \<times> bool \<times> bool \<times> bool \<Rightarrow> Edge" where
  "mk_edge k t = (case t of (t1, t2, t3, t4) \<Rightarrow>
     \<lparr>edge_i = k, function_entry = t1, function_exit = t2, extern_function = t3,
      function_pointer = t4\<rparr>)"

definition edge_tags :: "Edge \<Rightarrow> bool \<times> bool \<times> bool \<times> bool" where
  "edge_tags e = (function_entry e, function_exit e, extern_function e, function_pointer e)"

definition succ_edge_set :: "RInsn list \<Rightarrow> (nat \<times> nat \<times> bool \<times> bool \<times> bool \<times> bool) set" where
  "succ_edge_set rs = (\<Union>i\<in>{..<length rs}. (\<lambda>e. (i, edge_i e, edge_tags e)) ` set (successors (rs ! i)))"

definition pred_edge_set :: "RInsn list \<Rightarrow> (nat \<times> nat \<times> bool \<times> bool \<times> bool \<times> bool) set" where
  "pred_edge_set rs = (\<Union>j\<in>{..<length rs}. (\<lambda>e. (edge_i e, j, edge_tags e)) ` set (predecessors (rs ! j)))"

definition core :: "RInsn \<Rightarrow> RInsn" where
  "core insn = insn\<lparr>successors := [], predecessors := [], no_following_successor := False\<rparr>"

definition mirrored :: "RInsn list \<Rightarrow> bool" where
  "mirrored rs \<longleftrightarrow>
     (\<forall>i<length rs. \<forall>j<length rs. \<forall>t.
        count_list (successors (rs ! i)) (mk_edge j t) = count_list (predecessors (rs ! j)) (mk_edge i t)) \<and>
     (\<forall>i<length rs. \<forall>e\<in>set (successors (rs ! i)) \<union> set (predecessors (rs ! i)). edge_i e < length rs)"

lemma mk_edge_eq: "mk_edge (edge_i e) (edge_tags e) = e"
  by (simp add: mk_edge_def edge_tags_def)

lemma mk_edge_sel [simp]: "edge_i (mk_edge k t) = k" "edge_tags (mk_edge k t) = t"
  by (auto simp: mk_edge_def edge_tags_def split: prod.splits)

lemma mk_edge_inj [simp]: "mk_edge k t = mk_edge k' t' \<longleftrightarrow> k = k' \<and> t = t'"
  by (auto simp: mk_edge_def split: prod.splits)


lemma core_upd [simp]:
  "core (a\<lparr>successors := s\<rparr>) = core a" "core (a\<lparr>predecessors := p\<rparr>) = core a"
  "core (a\<lparr>no_following_successor := b\<rparr>) = core a"
  by (simp_all add: core_def)

lemma r_add_edge_Inr:
  assumes "r_add_edge a b t1 t2 t3 t4 rs = Inr rs'"
  shows "a < length rs" "b < length rs" "length rs' = length rs"
    "no_following_successor (rs' ! k) = no_following_successor (rs ! k)"
    "core (rs' ! k) = core (rs ! k)"
    "k < length rs \<Longrightarrow> successors (rs' ! k) =
       successors (rs ! k) @ (if k = a then [mk_edge b (t1, t2, t3, t4)] else [])"
    "k < length rs \<Longrightarrow> predecessors (rs' ! k) =
       predecessors (rs ! k) @ (if k = b then [mk_edge a (t1, t2, t3, t4)] else [])"
  using assms
  by (auto simp: r_add_edge_def Let_def nth_list_update mk_edge_def split: if_splits)

lemma set_nfs_Inr:
  assumes "set_no_following_successor j rs = Inr rs'"
  shows "j < length rs" "length rs' = length rs"
    "no_following_successor (rs' ! k) = (if k = j then True else no_following_successor (rs ! k))"
    "core (rs' ! k) = core (rs ! k)"
    "successors (rs' ! k) = successors (rs ! k)"
    "predecessors (rs' ! k) = predecessors (rs ! k)"
  using assms
  by (auto simp: set_no_following_successor_def nth_list_update split: if_splits)

lemma r_add_edge_mirrored:
  assumes "r_add_edge a b t1 t2 t3 t4 rs = Inr rs'" "mirrored rs"
  shows "mirrored rs'"
proof -
  note E = r_add_edge_Inr[OF assms(1)]
  show ?thesis
    unfolding mirrored_def
  proof (intro conjI allI impI ballI)
    fix i j t assume "i < length rs'" "j < length rs'"
    then have ij: "i < length rs" "j < length rs" using E(3) by simp_all
    with assms(2) have "count_list (successors (rs ! i)) (mk_edge j t)
        = count_list (predecessors (rs ! j)) (mk_edge i t)"
      unfolding mirrored_def by blast
    then show "count_list (successors (rs' ! i)) (mk_edge j t)
        = count_list (predecessors (rs' ! j)) (mk_edge i t)"
      using ij by (auto simp: E(6) E(7))
  next
    fix i e assume "i < length rs'" "e \<in> set (successors (rs' ! i)) \<union> set (predecessors (rs' ! i))"
    then show "edge_i e < length rs'"
      using assms(2) E(1,2,3) by (auto simp: mirrored_def E(6) E(7) split: if_splits)
  qed
qed

lemma set_nfs_mirrored:
  assumes "set_no_following_successor j rs = Inr rs'" "mirrored rs"
  shows "mirrored rs'"
  using assms(2) set_nfs_Inr[OF assms(1)] by (simp add: mirrored_def)

text \<open>
  What every step of the pass preserves: the length of the vector, every field but the
  two edge lists and the flag, flags once set, edges once added, and mirrored lists.
\<close>

definition cfg_ext :: "RInsn list \<Rightarrow> RInsn list \<Rightarrow> bool" where
  "cfg_ext rs rs' \<longleftrightarrow> length rs' = length rs \<and>
     (\<forall>k. core (rs' ! k) = core (rs ! k)) \<and>
     (\<forall>k. no_following_successor (rs ! k) \<longrightarrow> no_following_successor (rs' ! k)) \<and>
     (\<forall>k<length rs. set (successors (rs ! k)) \<subseteq> set (successors (rs' ! k))) \<and>
     (mirrored rs \<longrightarrow> mirrored rs')"

lemma cfg_ext_refl: "cfg_ext rs rs"
  by (simp add: cfg_ext_def)

lemma cfg_ext_trans: "cfg_ext a b \<Longrightarrow> cfg_ext b c \<Longrightarrow> cfg_ext a c"
  unfolding cfg_ext_def by (metis subset_trans)

lemma r_add_edge_ext: "r_add_edge a b t1 t2 t3 t4 rs = Inr rs' \<Longrightarrow> cfg_ext rs rs'"
  unfolding cfg_ext_def
  using r_add_edge_Inr[of a b t1 t2 t3 t4 rs rs'] r_add_edge_mirrored[of a b t1 t2 t3 t4 rs rs']
  by auto

lemma set_nfs_ext: "set_no_following_successor j rs = Inr rs' \<Longrightarrow> cfg_ext rs rs'"
  unfolding cfg_ext_def using set_nfs_Inr[of j rs rs'] set_nfs_mirrored[of j rs rs'] by auto

lemma jtbl_edges_ext: "jtbl_edges st i p js rs = Inr rs' \<Longrightarrow> cfg_ext rs rs'"
proof (induction js arbitrary: rs)
  case Nil
  then show ?case by (simp add: cfg_ext_refl)
next
  case (Cons j js)
  then show ?case
    by (auto simp: bindE_Inr dest!: r_add_edge_ext intro: cfg_ext_trans)
qed

lemma return_edges_ext: "return_edges st i rets rs = Inr rs' \<Longrightarrow> cfg_ext rs rs'"
proof (induction rets arbitrary: rs)
  case Nil
  then show ?case by (simp add: cfg_ext_refl)
next
  case (Cons r rets)
  then show ?case
    by (auto simp: bindE_Inr dest!: r_add_edge_ext intro: cfg_ext_trans)
qed

lemma r_pass3_insn_ext: "r_pass3_insn L st i rs = Inr rs' \<Longrightarrow> cfg_ext rs rs'"
  unfolding r_pass3_insn_def Let_def
  by (auto simp: bindE_Inr cfg_ext_refl split: if_splits option.splits
      dest!: r_add_edge_ext set_nfs_ext jtbl_edges_ext return_edges_ext intro: cfg_ext_trans)

lemma r_pass3_loop_ext: "r_pass3_loop L st is rs = Inr rs' \<Longrightarrow> cfg_ext rs rs'"
proof (induction "is" arbitrary: rs)
  case Nil
  then show ?case by (simp add: cfg_ext_refl)
next
  case (Cons i "is")
  then show ?case
    by (auto simp: bindE_Inr dest!: r_pass3_insn_ext intro: cfg_ext_trans)
qed

lemma r_pass3_loop_visit:
  assumes "r_pass3_loop L st is rs = Inr rs'" "i \<in> set is"
  shows "\<exists>ra rb. cfg_ext rs ra \<and> r_pass3_insn L st i ra = Inr rb \<and> cfg_ext rb rs'"
  using assms
proof (induction "is" arbitrary: rs)
  case Nil
  then show ?case by simp
next
  case (Cons k "is")
  from Cons.prems(1) obtain r1 where r1: "r_pass3_insn L st k rs = Inr r1"
    "r_pass3_loop L st is r1 = Inr rs'"
    by (auto simp: bindE_Inr)
  show ?case
  proof (cases "i = k")
    case True
    with r1 show ?thesis
      using cfg_ext_refl r_pass3_loop_ext by blast
  next
    case False
    with Cons.prems(2) have "i \<in> set is" by simp
    from Cons.IH[OF r1(2) this] obtain ra rb where
      "cfg_ext r1 ra" "r_pass3_insn L st i ra = Inr rb" "cfg_ext rb rs'" by blast
    moreover have "cfg_ext rs r1" using r1(1) by (rule r_pass3_insn_ext)
    ultimately show ?thesis using cfg_ext_trans by blast
  qed
qed

text \<open>The first action of every case of the switch is the fallthrough edge.\<close>

lemma r_pass3_insn_fallthrough:
  assumes "r_pass3_insn L st i rs = Inr rs'" "i < length rs" "\<not> no_following_successor (rs ! i)"
  shows "mk_edge (i + 1) (False, False, False, False) \<in> set (successors (rs' ! i))"
proof -
  have "\<exists>r1. r_add_edge i (i + 1) False False False False rs = Inr r1 \<and> cfg_ext r1 rs'"
    using assms(1,3) unfolding r_pass3_insn_def Let_def
    apply (simp add: bindE_Inr split: if_splits option.splits)
    apply (blast intro: cfg_ext_trans cfg_ext_refl
        dest: r_add_edge_ext set_nfs_ext jtbl_edges_ext return_edges_ext)+
    done
  then obtain r1 where r1: "r_add_edge i (i + 1) False False False False rs = Inr r1"
    and ext: "cfg_ext r1 rs'" by blast
  have "mk_edge (i + 1) (False, False, False, False) \<in> set (successors (r1 ! i))"
    using r_add_edge_Inr(6)[OF r1, of i] assms(2) by simp
  moreover have "length r1 = length rs" using r_add_edge_Inr(3)[OF r1] .
  ultimately show ?thesis using ext assms(2) unfolding cfg_ext_def by auto
qed




text \<open>
  A small program: \<open>main\<close> at \<^verbatim>\<open>0x400000\<close> calls \<open>f\<close> at \<^verbatim>\<open>0x400010\<close> and
  returns; \<open>f\<close> is \<^verbatim>\<open>addiu $v0, $zero, 1; jr $ra; addu $v0, $v0, $a0\<close>.
\<close>

definition call_program :: "RInsn list" where
  "call_program =
     [fresh_insn ''cpu_jal'' 0x0C100004 0x400000,
      fresh_insn ''cpu_nop'' 0 0x400004,
      fresh_insn ''cpu_jr'' 0x03E00008 0x400008,
      fresh_insn ''cpu_nop'' 0 0x40000C,
      fresh_insn ''cpu_addiu'' 0x24020001 0x400010,
      fresh_insn ''cpu_jr'' 0x03E00008 0x400014,
      fresh_insn ''cpu_addu'' 0x00441021 0x400018,
      sentinel_insn 0x40001C]"

definition call_state :: state where
  "call_state = example_state call_program
     [(0x400000, empty_Function\<lparr>returns := [0x40000C]\<rparr>),
      (0x400010, empty_Function\<lparr>returns := [0x400018]\<rparr>)]"




lemmas example_defs = example_state_def fresh_insn_def
  sentinel_insn_def empty_Function_def mips_lib_def mips_descr_def


lemmas pass3_defs = r_pass3_def r_pass3_insn_def r_add_edge_def set_no_following_successor_def
  bindE_def cond_branch_ids_def likely_branch_ids_def jal_dest_def is_internal_call_def
  addr_to_i_def branch_target_i_def RAB_INSTR_GET_rs_def REG_defs Let_def

lemma mirrored_empty:
  assumes "\<forall>insn\<in>set rs. successors insn = [] \<and> predecessors insn = []"
  shows "mirrored rs"
  using assms by (simp add: mirrored_def)

lemma mirrored_edge_sets:
  assumes "mirrored rs"
  shows "succ_edge_set rs = pred_edge_set rs"
proof -
  have in_count: "\<And>xs (x::Edge). x \<in> set xs \<longleftrightarrow> 0 < count_list xs x"
    by (simp add: count_list_0_iff zero_less_iff_neq_zero)
  have m1: "\<And>i j t. i < length rs \<Longrightarrow> j < length rs \<Longrightarrow>
      mk_edge j t \<in> set (successors (rs ! i)) \<longleftrightarrow> mk_edge i t \<in> set (predecessors (rs ! j))"
    using assms unfolding mirrored_def in_count by metis
  have rng: "\<And>i e. i < length rs \<Longrightarrow> e \<in> set (successors (rs ! i)) \<or> e \<in> set (predecessors (rs ! i))
      \<Longrightarrow> edge_i e < length rs"
    using assms unfolding mirrored_def by blast
  show ?thesis
  proof (intro set_eqI iffI)
    fix x assume "x \<in> succ_edge_set rs"
    then obtain i e where ie: "i < length rs" "e \<in> set (successors (rs ! i))"
      "x = (i, edge_i e, edge_tags e)"
      by (auto simp: succ_edge_set_def)
    then have j: "edge_i e < length rs" using rng by blast
    have "mk_edge (edge_i e) (edge_tags e) \<in> set (successors (rs ! i))"
      using ie(2) by (simp add: mk_edge_eq)
    then have "mk_edge i (edge_tags e) \<in> set (predecessors (rs ! edge_i e))"
      using m1[OF ie(1) j] by simp
    then show "x \<in> pred_edge_set rs"
      unfolding pred_edge_set_def ie(3) using j
      by (force simp: image_iff intro!: bexI[where x="mk_edge i (edge_tags e)"])
  next
    fix x assume "x \<in> pred_edge_set rs"
    then obtain j e where je: "j < length rs" "e \<in> set (predecessors (rs ! j))"
      "x = (edge_i e, j, edge_tags e)"
      by (auto simp: pred_edge_set_def)
    then have i: "edge_i e < length rs" using rng by blast
    have "mk_edge (edge_i e) (edge_tags e) \<in> set (predecessors (rs ! j))"
      using je(2) by (simp add: mk_edge_eq)
    then have "mk_edge j (edge_tags e) \<in> set (successors (rs ! edge_i e))"
      using m1[OF i je(1)] by simp
    then show "x \<in> succ_edge_set rs"
      unfolding succ_edge_set_def je(3) using i
      by (force simp: image_iff intro!: bexI[where x="mk_edge j (edge_tags e)"])
  qed
qed

lemma r_pass3_Inr:
  assumes "r_pass3 L st = Inr st'"
  shows "r_pass3_loop L st [0..<length (rinsns st)] (rinsns st) = Inr (rinsns st')"
    "cfg_ext (rinsns st) (rinsns st')"
proof -
  from assms obtain rs where rs: "r_pass3_loop L st [0..<length (rinsns st)] (rinsns st) = Inr rs"
    "st' = st\<lparr>rinsns := rs\<rparr>"
    by (auto simp: r_pass3_def bindE_Inr)
  then show "r_pass3_loop L st [0..<length (rinsns st)] (rinsns st) = Inr (rinsns st')" by simp
  then show "cfg_ext (rinsns st) (rinsns st')" by (rule r_pass3_loop_ext)
qed

text \<open>
  Claim C8. After \<^verbatim>\<open>r_pass3\<close>, every instruction index \<open>i\<close> whose
  \<open>no_following_successor\<close> flag is false has an edge to \<open>i + 1\<close> in its successors
  list (the plain edge, with no tag set), whatever its opcode.
\<close>

theorem r_pass3_fallthrough:
  assumes "r_pass3 L st = Inr st'" and "i < length (rinsns st')"
    and "\<not> no_following_successor (rinsns st' ! i)"
  shows "mk_edge (i + 1) (False, False, False, False) \<in> set (successors (rinsns st' ! i))"
proof -
  note P = r_pass3_Inr[OF assms(1)]
  have len: "length (rinsns st') = length (rinsns st)" using P(2) by (simp add: cfg_ext_def)
  with assms(2) have "i \<in> set [0..<length (rinsns st)]" by simp
  from r_pass3_loop_visit[OF P(1) this] obtain ra rb where
    v: "cfg_ext (rinsns st) ra" "r_pass3_insn L st i ra = Inr rb" "cfg_ext rb (rinsns st')"
    by blast
  have "cfg_ext ra rb" using v(2) by (rule r_pass3_insn_ext)
  then have "\<not> no_following_successor (ra ! i)"
    using v(3) assms(3) unfolding cfg_ext_def by blast
  moreover have li: "i < length ra" using v(1) assms(2) len by (simp add: cfg_ext_def)
  ultimately have "mk_edge (i + 1) (False, False, False, False) \<in> set (successors (rb ! i))"
    using r_pass3_insn_fallthrough[OF v(2)] by blast
  moreover have "length rb = length ra" using \<open>cfg_ext ra rb\<close> by (simp add: cfg_ext_def)
  ultimately show ?thesis using v(3) li unfolding cfg_ext_def by auto
qed

theorem r_pass3_fallthrough_witness:
  "r_pass3 mips_lib call_state = Inr (projr (r_pass3 mips_lib call_state)) \<and>
   \<not> no_following_successor (rinsns (projr (r_pass3 mips_lib call_state)) ! 2) \<and>
   mk_edge (2 + 1) (False, False, False, False)
     \<in> set (successors (rinsns (projr (r_pass3 mips_lib call_state)) ! 2))"
proof -
  let ?st = "projr (r_pass3 mips_lib call_state)"
  have e: "r_pass3 mips_lib call_state = Inr ?st"
    by (simp add: call_state_def call_program_def example_defs pass3_defs upt_conv_Cons)
  have l: "2 < length (rinsns ?st)"
    by (simp add: call_state_def call_program_def example_defs pass3_defs upt_conv_Cons)
  have n: "\<not> no_following_successor (rinsns ?st ! 2)"
    by (simp add: call_state_def call_program_def example_defs pass3_defs upt_conv_Cons)
  from r_pass3_fallthrough[OF e l n] e n show ?thesis by blast
qed

text \<open>
  Claim C10. \<^verbatim>\<open>r_add_edge\<close> appends exactly one entry to the successors of \<open>from\<close> and
  exactly one to the predecessors of \<open>to\<close>, with the same four tags, and touches no other
  list. Consequently, after \<^verbatim>\<open>r_pass3\<close> (run on a vector whose edge lists are still
  empty, as \<^verbatim>\<open>r_disassemble\<close> leaves them) the two lists mirror each other: the edge
  \<open>i \<rightarrow> j\<close> with tags \<open>t\<close> occurs in the successors of \<open>i\<close> exactly as often as
  \<open>j \<leftarrow> i\<close> with tags \<open>t\<close> occurs in the predecessors of \<open>j\<close>, and the tagged edges
  the forward pass reads from the successor lists are those the backward pass reads from
  the predecessor lists.
\<close>
theorem cfg_edges_mirrored:
  assumes "r_pass3 L st = Inr st'"
    and "\<forall>insn\<in>set (rinsns st). successors insn = [] \<and> predecessors insn = []"
  shows "(\<forall>a b t1 t2 t3 t4 rs rs'. r_add_edge a b t1 t2 t3 t4 rs = Inr rs' \<longrightarrow>
            (\<forall>k<length rs.
               successors (rs' ! k) =
                 successors (rs ! k) @ (if k = a then [mk_edge b (t1, t2, t3, t4)] else []) \<and>
               predecessors (rs' ! k) =
                 predecessors (rs ! k) @ (if k = b then [mk_edge a (t1, t2, t3, t4)] else []))) \<and>
         (\<forall>i<length (rinsns st'). \<forall>j<length (rinsns st'). \<forall>t.
            count_list (successors (rinsns st' ! i)) (mk_edge j t) =
            count_list (predecessors (rinsns st' ! j)) (mk_edge i t)) \<and>
         succ_edge_set (rinsns st') = pred_edge_set (rinsns st')"
proof -
  have "mirrored (rinsns st)" using assms(2) by (rule mirrored_empty)
  then have m: "mirrored (rinsns st')"
    using r_pass3_Inr(2)[OF assms(1)] by (simp add: cfg_ext_def)
  have a: "\<forall>a b t1 t2 t3 t4 rs rs'. r_add_edge a b t1 t2 t3 t4 rs = Inr rs' \<longrightarrow>
            (\<forall>k<length rs.
               successors (rs' ! k) =
                 successors (rs ! k) @ (if k = a then [mk_edge b (t1, t2, t3, t4)] else []) \<and>
               predecessors (rs' ! k) =
                 predecessors (rs ! k) @ (if k = b then [mk_edge a (t1, t2, t3, t4)] else []))"
    using r_add_edge_Inr(6,7) by blast
  have b: "\<forall>i<length (rinsns st'). \<forall>j<length (rinsns st'). \<forall>t.
            count_list (successors (rinsns st' ! i)) (mk_edge j t) =
            count_list (predecessors (rinsns st' ! j)) (mk_edge i t)"
    using m unfolding mirrored_def by blast
  from a b mirrored_edge_sets[OF m] show ?thesis by blast
qed




theorem cfg_edges_mirrored_witness:
  "r_pass3 mips_lib call_state = Inr (projr (r_pass3 mips_lib call_state)) \<and>
   succ_edge_set (rinsns (projr (r_pass3 mips_lib call_state))) =
     {(0, 1, False, False, False, False), (1, 4, True, False, False, False),
      (6, 2, False, True, False, False), (2, 3, False, False, False, False),
      (4, 5, False, False, False, False), (5, 6, False, False, False, False)} \<and>
   pred_edge_set (rinsns (projr (r_pass3 mips_lib call_state))) =
     succ_edge_set (rinsns (projr (r_pass3 mips_lib call_state)))"
proof -
  let ?st = "projr (r_pass3 mips_lib call_state)"
  have e: "r_pass3 mips_lib call_state = Inr ?st"
    by (simp add: call_state_def call_program_def example_defs pass3_defs upt_conv_Cons)
  have i: "\<forall>insn\<in>set (rinsns call_state). successors insn = [] \<and> predecessors insn = []"
    by (simp add: call_state_def call_program_def example_defs)
  have s: "succ_edge_set (rinsns ?st) =
     {(0, 1, False, False, False, False), (1, 4, True, False, False, False),
      (6, 2, False, True, False, False), (2, 3, False, False, False, False),
      (4, 5, False, False, False, False), (5, 6, False, False, False, False)}"
    by (simp add: call_state_def call_program_def example_defs pass3_defs upt_conv_Cons
        succ_edge_set_def edge_tags_def lessThan_Suc)
       (auto simp add: eval_nat_numeral)
  from cfg_edges_mirrored[OF e i] e s show ?thesis by simp
qed









lemma function_exit_mk_edge [simp]: "function_exit (mk_edge b (t1, t2, t3, t4)) = t2"
  by (simp add: mk_edge_def)
























section \<open>The liveness engine\<close>

definition r_map_reg :: "nat \<Rightarrow> u64" where
  "r_map_reg reg = push_bit (reg - REG_zero + 1) 1"

definition r_temporary_regs :: u64 where
  "r_temporary_regs =
     r_map_reg REG_t0 OR r_map_reg REG_t1 OR r_map_reg REG_t2 OR r_map_reg REG_t3 OR
     r_map_reg REG_t4 OR r_map_reg REG_t5 OR r_map_reg REG_t6 OR r_map_reg REG_t7 OR
     r_map_reg REG_t8 OR r_map_reg REG_t9"

text \<open>
  The mask \<^verbatim>\<open>v0 | a0 | a1 | a2 | a3 | v1 | r_temporary_regs()\<close> that both passes clear
  across a call.
\<close>

definition caller_saved :: u64 where
  "caller_saved =
     r_map_reg REG_v0 OR r_map_reg REG_a0 OR r_map_reg REG_a1 OR r_map_reg REG_a2 OR
     r_map_reg REG_a3 OR r_map_reg REG_v1 OR r_temporary_regs"

datatype insn_type = TYPE_NOP | TYPE_1S | TYPE_2S | TYPE_1D | TYPE_1D_1S | TYPE_1D_2S
  | TYPE_D_LO_HI_2S | TYPE_1S_POS1

text \<open>
  \<^verbatim>\<open>r_insn_to_type\<close> (its result type \<^verbatim>\<open>TYPE\<close> is \<open>insn_type\<close> here) takes the instruction by reference: for a \<^verbatim>\<open>JR\<close> with a jump
  table it first overwrites the \<open>rs\<close> field of the word with \<open>index_reg\<close>. The model
  returns the instruction together with its type. The cases are in the source's order;
  \<^verbatim>\<open>add_s\<close>/\<^verbatim>\<open>add_d\<close> return \<open>TYPE_NOP\<close> there (the second \<^verbatim>\<open>return\<close> is dead).
\<close>

definition r_insn_to_type :: "RInsn \<Rightarrow> insn_type \<times> RInsn" where
  "r_insn_to_type insn =
     (let uid = uniqueId (instruction insn) in
      if uid \<in> set [''cpu_add_s'', ''cpu_add_d''] then (TYPE_NOP, insn)
      else if uid \<in> set [''cpu_add'', ''cpu_addu'', ''cpu_addi'', ''cpu_addiu'', ''cpu_andi'',
          ''cpu_ori'', ''cpu_lb'', ''cpu_lbu'', ''cpu_lh'', ''cpu_lhu'', ''cpu_lw'', ''cpu_lwl'',
          ''cpu_move'', ''cpu_negu'', ''cpu_not'', ''cpu_sll'', ''cpu_slti'', ''cpu_sltiu'',
          ''cpu_sra'', ''cpu_srl'', ''cpu_xori''] then (TYPE_1D_1S, insn)
      else if uid = ''cpu_mfhi'' then (TYPE_1D_1S, insn)
      else if uid = ''cpu_mflo'' then (TYPE_1D_1S, insn)
      else if uid \<in> set [''cpu_and'', ''cpu_or'', ''cpu_nor'', ''cpu_sllv'', ''cpu_slt'',
          ''cpu_sltu'', ''cpu_srav'', ''cpu_srlv'', ''cpu_subu'', ''cpu_xor'']
        then (TYPE_1D_2S, insn)
      else if uid \<in> set [''cpu_cfc1'', ''cpu_mfc1'', ''cpu_lui''] then (TYPE_1D, insn)
      else if uid \<in> set [''cpu_ctc1'', ''cpu_bgez'', ''cpu_bgezl'', ''cpu_bgtz'', ''cpu_bgtzl'',
          ''cpu_blez'', ''cpu_blezl'', ''cpu_bltz'', ''cpu_bltzl'', ''cpu_beqz'', ''cpu_bnez'',
          ''cpu_mtc1''] then (TYPE_1S, insn)
      else if uid \<in> set [''cpu_beq'', ''cpu_beql'', ''cpu_bne'', ''cpu_bnel'', ''cpu_sb'',
          ''cpu_sh'', ''cpu_sw'', ''cpu_swl'', ''cpu_tne'', ''cpu_teq'', ''cpu_tge'', ''cpu_tgeu'',
          ''cpu_tlt''] then (TYPE_2S, insn)
      else if uid = ''cpu_div'' then (TYPE_D_LO_HI_2S, insn)
      else if uid \<in> set [''cpu_div_s'', ''cpu_div_d''] then (TYPE_NOP, insn)
      else if uid \<in> set [''cpu_divu'', ''cpu_mult'', ''cpu_multu''] then (TYPE_D_LO_HI_2S, insn)
      else if uid \<in> set [''cpu_neg_s'', ''cpu_neg_d''] then (TYPE_NOP, insn)
      else if uid = ''cpu_jalr'' then (TYPE_1S, insn)
      else if uid = ''cpu_jr'' then
        (let insn' = (if jtbl_addr insn \<noteq> 0
                      then insn\<lparr>instruction := (instruction insn)
                             \<lparr>word := RAB_INSTR_PACK_rs (word (instruction insn)) (index_reg insn)\<rparr>\<rparr>
                      else insn)
         in if RAB_INSTR_GET_rt (instruction insn') = REG_ra then (TYPE_NOP, insn')
            else (TYPE_1S, insn'))
      else if uid \<in> set [''cpu_lwc1'', ''cpu_ldc1'', ''cpu_swc1'', ''cpu_sdc1'']
        then (TYPE_1S_POS1, insn)
      else (TYPE_NOP, insn))"

definition get_dest_reg_mask :: "RabbitizerInstruction \<Rightarrow> u64" where
  "get_dest_reg_mask instr =
     (if modifiesRt (descriptor instr) then r_map_reg (RAB_INSTR_GET_rt instr)
      else if modifiesRd (descriptor instr) then r_map_reg (RAB_INSTR_GET_rd instr)
      else 0)"

definition get_single_source_reg_mask :: "RabbitizerInstruction \<Rightarrow> u64" where
  "get_single_source_reg_mask instr =
     (if has_rs (descriptor instr) then r_map_reg (RAB_INSTR_GET_rs instr)
      else if has_rt (descriptor instr) then r_map_reg (RAB_INSTR_GET_rt instr)
      else 0)"

definition get_all_source_reg_mask :: "RabbitizerInstruction \<Rightarrow> u64" where
  "get_all_source_reg_mask instr =
     (let ret = (if has_rs (descriptor instr) then r_map_reg (RAB_INSTR_GET_rs instr) else 0)
      in if has_rt (descriptor instr) \<and> \<not> modifiesRt (descriptor instr)
         then ret OR r_map_reg (RAB_INSTR_GET_rt instr) else ret)"

subsection \<open>The catalogue of external functions\<close>

definition FLAG_NO_MEM :: int where "FLAG_NO_MEM = 1"
definition FLAG_VARARG :: int where "FLAG_VARARG = 2"

text \<open>\<^verbatim>\<open>extern_functions[]\<close>: name, parameter string, flags.\<close>

definition extern_functions :: "(string \<times> string \<times> int) list" where
  "extern_functions = [
    (''exit'', ''vi'', 0), (''abort'', ''v'', 0), (''sbrk'', ''pi'', 0),
     (''malloc'', ''pu'', 0), (''calloc'', ''puu'', 0), (''realloc'', ''ppu'', 0),
     (''free'', ''vp'', 0), (''fscanf'', ''ipp'', FLAG_VARARG),
     (''printf'', ''ip'', FLAG_VARARG), (''sprintf'', ''ipp'', FLAG_VARARG),
     (''fprintf'', ''ipp'', FLAG_VARARG), (''_doprnt'', ''ippp'', 0), (''strlen'', ''up'', 0),
     (''open'', ''ipii'', 0), (''creat'', ''ipi'', 0), (''access'', ''ipi'', 0),
     (''rename'', ''ipp'', 0), (''utime'', ''ipp'', 0), (''flock'', ''iii'', 0),
     (''chmod'', ''ipu'', 0), (''umask'', ''ii'', FLAG_NO_MEM), (''ecvt'', ''pdipp'', 0),
     (''fcvt'', ''pdipp'', 0), (''sqrt'', ''dd'', FLAG_NO_MEM),
     (''sqrtf'', ''ff'', FLAG_NO_MEM), (''atoi'', ''ip'', 0), (''atol'', ''ip'', 0),
     (''atof'', ''dp'', 0), (''strtol'', ''ippi'', 0), (''strtoul'', ''uppi'', 0),
     (''strtoll'', ''lppi'', 0), (''strtoull'', ''jppi'', 0), (''strtod'', ''dpp'', 0),
     (''strchr'', ''ppi'', 0), (''strrchr'', ''ppi'', 0), (''strcspn'', ''upp'', 0),
     (''strpbrk'', ''ppp'', 0), (''fstat'', ''iip'', 0), (''stat'', ''ipp'', 0),
     (''ftruncate'', ''iii'', 0), (''bcopy'', ''vppu'', 0), (''memcpy'', ''pppu'', 0),
     (''memccpy'', ''pppiu'', 0), (''read'', ''iipu'', 0), (''write'', ''iipu'', 0),
     (''fopen'', ''ppp'', 0), (''freopen'', ''pppp'', 0), (''fclose'', ''ip'', 0),
     (''ftell'', ''ip'', 0), (''rewind'', ''vp'', 0), (''fseek'', ''ipii'', 0),
     (''lseek'', ''iiii'', 0), (''fflush'', ''ip'', 0), (''dup'', ''ii'', 0),
     (''dup2'', ''iii'', 0), (''pipe'', ''ip'', 0), (''perror'', ''vp'', 0),
     (''fdopen'', ''iip'', 0), (''memset'', ''ppiu'', 0), (''bcmp'', ''ippu'', 0),
     (''memcmp'', ''ippu'', 0), (''getpid'', ''i'', FLAG_NO_MEM), (''getpgrp'', ''i'', 0),
     (''remove'', ''ip'', 0), (''unlink'', ''ip'', 0), (''close'', ''ii'', 0),
     (''strcmp'', ''ipp'', 0), (''strncmp'', ''ippu'', 0), (''strcpy'', ''ppp'', 0),
     (''strncpy'', ''pppu'', 0), (''strcat'', ''ppp'', 0), (''strncat'', ''pppu'', 0),
     (''strtok'', ''ppp'', 0), (''strstr'', ''ppp'', 0), (''strdup'', ''pp'', 0),
     (''toupper'', ''ii'', FLAG_NO_MEM), (''tolower'', ''ii'', FLAG_NO_MEM),
     (''gethostname'', ''ipu'', 0), (''isatty'', ''ii'', 0), (''strftime'', ''upupp'', 0),
     (''times'', ''ip'', 0), (''clock'', ''i'', FLAG_NO_MEM), (''ctime'', ''pp'', 0),
     (''localtime'', ''pp'', 0), (''setvbuf'', ''ippiu'', 0), (''__semgetc'', ''ip'', 0),
     (''__semputc'', ''iip'', 0), (''fgetc'', ''ip'', 0), (''fgets'', ''ipip'', 0),
     (''__filbuf'', ''ip'', 0), (''__flsbuf'', ''iip'', 0), (''ungetc'', ''iip'', 0),
     (''gets'', ''pp'', 0), (''fread'', ''upuup'', 0), (''fwrite'', ''upuup'', 0),
     (''fputs'', ''ipp'', 0), (''puts'', ''ip'', 0), (''getcwd'', ''ppu'', 0),
     (''time'', ''ip'', 0), (''bzero'', ''vpu'', 0), (''fp_class_d'', ''id'', FLAG_NO_MEM),
     (''ldexp'', ''ddi'', FLAG_NO_MEM), (''__ll_mul'', ''lll'', FLAG_NO_MEM),
     (''__ll_div'', ''lll'', FLAG_NO_MEM), (''__ll_rem'', ''ljl'', FLAG_NO_MEM),
     (''__ll_lshift'', ''llj'', FLAG_NO_MEM), (''__ll_rshift'', ''llj'', FLAG_NO_MEM),
     (''__ull_div'', ''jjj'', FLAG_NO_MEM), (''__ull_rem'', ''jjj'', FLAG_NO_MEM),
     (''__ull_rshift'', ''jjj'', FLAG_NO_MEM), (''__d_to_ull'', ''jd'', FLAG_NO_MEM),
     (''__d_to_ll'', ''ld'', FLAG_NO_MEM), (''__f_to_ull'', ''jf'', FLAG_NO_MEM),
     (''__f_to_ll'', ''lf'', FLAG_NO_MEM), (''__ull_to_f'', ''fj'', FLAG_NO_MEM),
     (''__ll_to_f'', ''fl'', FLAG_NO_MEM), (''__ull_to_d'', ''dj'', FLAG_NO_MEM),
     (''__ll_to_d'', ''dl'', FLAG_NO_MEM), (''_exit'', ''vi'', 0), (''_cleanup'', ''v'', 0),
     (''_rld_new_interface'', ''pu'', FLAG_VARARG), (''_exithandle'', ''v'', 0),
     (''_prctl'', ''ii'', FLAG_VARARG), (''_atod'', ''dpii'', 0), (''pathconf'', ''ipi'', 0),
     (''getenv'', ''pp'', 0), (''gettxt'', ''ppp'', 0), (''setlocale'', ''pip'', 0),
     (''mmap'', ''ppuiiii'', 0), (''munmap'', ''ipu'', 0), (''mprotect'', ''ipui'', 0),
     (''sysconf'', ''ii'', 0), (''getpagesize'', ''i'', 0), (''strerror'', ''pi'', 0),
     (''ioctl'', ''iiu'', FLAG_VARARG), (''fcntl'', ''iii'', FLAG_VARARG),
     (''signal'', ''pit'', 0), (''sigset'', ''pit'', 0), (''get_fpc_csr'', ''i'', 0),
     (''set_fpc_csr'', ''ii'', 0), (''setjmp'', ''ip'', 0), (''longjmp'', ''vpi'', 0),
     (''tempnam'', ''ppp'', 0), (''tmpnam'', ''pp'', 0), (''mktemp'', ''pp'', 0),
     (''mkstemp'', ''ip'', 0), (''tmpfile'', ''p'', 0), (''wait'', ''ip'', 0),
     (''kill'', ''iii'', 0), (''execlp'', ''ip'', FLAG_VARARG), (''execv'', ''ipp'', 0),
     (''execvp'', ''ipp'', 0), (''fork'', ''i'', 0), (''system'', ''ip'', 0),
     (''tsearch'', ''pppp'', 0), (''tfind'', ''pppp'', 0), (''qsort'', ''vpuut'', 0),
     (''regcmp'', ''pp'', FLAG_VARARG), (''regex'', ''ppp'', FLAG_VARARG),
     (''__assert'', ''vppi'', 0)]"

text \<open>
  The lookup both passes make for an \<open>extern_function\<close> edge: the symbol at the call
  target, then the first catalogue entry of that name; \<^verbatim>\<open>assert(found_fn)\<close>.
\<close>

definition find_extern :: "state \<Rightarrow> u32 \<Rightarrow> error + (string \<times> string \<times> int)" where
  "find_extern st address =
     (case symbol_names st address of
        None \<Rightarrow> Inl AssertFailed
      | Some name \<Rightarrow>
          (case find (\<lambda>fn. name = fst fn) extern_functions of
             None \<Rightarrow> Inl AssertFailed
           | Some fn \<Rightarrow> Inr fn))"


subsection \<open>Forward pass (\<^verbatim>\<open>r_pass4\<close>)\<close>

definition livein_func_start :: u64 where
  "livein_func_start =
     1 OR r_map_reg REG_a0 OR r_map_reg REG_a1 OR r_map_reg REG_sp OR r_map_reg REG_zero"

text \<open>The \<^verbatim>\<open>switch (r_insn_to_type(insn))\<close> of the forward pass.\<close>

definition f_transfer :: "insn_type \<Rightarrow> RabbitizerInstruction \<Rightarrow> u64 \<Rightarrow> u64" where
  "f_transfer ty instr live =
     (case ty of
        TYPE_1D \<Rightarrow> live OR get_dest_reg_mask instr
      | TYPE_1D_1S \<Rightarrow>
          (if live AND get_single_source_reg_mask instr \<noteq> 0
           then live OR get_dest_reg_mask instr else live)
      | TYPE_1D_2S \<Rightarrow>
          (let src_regs_map = get_all_source_reg_mask instr
           in if live AND src_regs_map = src_regs_map
              then live OR get_dest_reg_mask instr else live)
      | TYPE_D_LO_HI_2S \<Rightarrow>
          (let src_regs_map = get_all_source_reg_mask instr
           in if live AND src_regs_map = src_regs_map
              then live OR r_map_reg REG_lo OR r_map_reg REG_hi else live)
      | _ \<Rightarrow> live)"

text \<open>The registers an external function returns in, from the first character of its
  parameter string.\<close>

definition f_ret_regs :: "string \<Rightarrow> u64" where
  "f_ret_regs params =
     (case params of
        [] \<Rightarrow> 0
      | ret_type # _ \<Rightarrow>
          if ret_type \<in> set ''iup'' then r_map_reg REG_v0
          else if ret_type \<in> set ''lj'' then r_map_reg REG_v0 OR r_map_reg REG_v1
          else 0)"

text \<open>
  What crosses the edge \<open>e\<close> out of instruction \<open>i\<close> in the forward pass. For an
  \<open>extern_function\<close> edge the callee is read from the call at \<open>i - 1\<close>.
\<close>

definition f_edge_live ::
  "rabbitizer \<Rightarrow> state \<Rightarrow> RInsn list \<Rightarrow> nat \<Rightarrow> Edge \<Rightarrow> u64 \<Rightarrow> error + u64" where
  "f_edge_live L st rs i e live =
     (if function_exit e then
        Inr (live AND (1 OR r_map_reg REG_v0 OR r_map_reg REG_v1 OR r_map_reg REG_zero))
      else if function_entry e then
        Inr (live AND (1 OR r_map_reg REG_v0 OR r_map_reg REG_a0 OR r_map_reg REG_a1 OR
                       r_map_reg REG_a2 OR r_map_reg REG_a3 OR r_map_reg REG_sp OR
                       r_map_reg REG_zero))
      else if extern_function e then
        (if 1 \<le> i \<and> i - 1 < length rs then
           bindE (find_extern st (jal_dest L (rs ! (i - 1)))) (\<lambda>found_fn.
             Inr ((live AND NOT caller_saved) OR f_ret_regs (fst (snd found_fn))))
         else Inl OutOfBounds)
      else if function_pointer e then
        Inr ((live AND NOT caller_saved) OR (r_map_reg REG_v0 OR r_map_reg REG_v1))
      else Inr live)"

text \<open>
  The worklist \<^verbatim>\<open>q\<close> is a vector used as a stack; the head of the list is
  \<^verbatim>\<open>q.back()\<close>. \<open>f_propagate\<close> is the guarded update at the end of the loop over the
  successors: \<^verbatim>\<open>if ((f_livein | new_live) != f_livein) { f_livein |= new_live; q.push_back(...) }\<close>.
\<close>

definition f_propagate ::
  "state \<Rightarrow> nat \<Rightarrow> u64 \<Rightarrow> RInsn list \<times> u32 list \<Rightarrow> error + RInsn list \<times> u32 list" where
  "f_propagate st k new_live s =
     (case s of (rs, q) \<Rightarrow>
        if k < length rs then
          (if f_livein (rs ! k) OR new_live \<noteq> f_livein (rs ! k) then
             Inr (rs[k := (rs ! k)\<lparr>f_livein := f_livein (rs ! k) OR new_live\<rparr>],
                  (text_vaddr st + of_nat k * 4) # q)
           else Inr (rs, q))
        else Inl OutOfBounds)"

fun f_successors_loop ::
  "rabbitizer \<Rightarrow> state \<Rightarrow> nat \<Rightarrow> u64 \<Rightarrow> Edge list \<Rightarrow> (RInsn list \<times> u32 list) \<times> bool
     \<Rightarrow> error + (RInsn list \<times> u32 list) \<times> bool" where
  "f_successors_loop L st i live [] s = Inr s"
| "f_successors_loop L st i live (e # es) s =
     bindE (f_edge_live L st (fst (fst s)) i e live) (\<lambda>new_live.
     bindE (f_propagate st (edge_i e) new_live (fst s)) (\<lambda>s'.
       f_successors_loop L st i live es
         (s', snd s \<or> (\<not> function_exit e \<and> function_entry e))))"

text \<open>One iteration of \<^verbatim>\<open>while (!q.empty())\<close>, after \<open>addr\<close> has been popped.\<close>

definition r_pass4_step ::
  "rabbitizer \<Rightarrow> state \<Rightarrow> RInsn list \<Rightarrow> u32 \<Rightarrow> u32 list \<Rightarrow> error + RInsn list \<times> u32 list" where
  "r_pass4_step L st rs addr q =
     (let i = addr_to_i st addr in
      if i < length rs then
        (let (ty, insn) = r_insn_to_type (rs ! i);
             live = f_transfer ty (instruction insn) (f_livein insn OR 1)
         in if f_liveout insn OR live = f_liveout insn then Inr (rs[i := insn], q)
            else
              (let live = live OR f_liveout insn
               in bindE (f_successors_loop L st i live (successors insn)
                           ((rs[i := insn\<lparr>f_liveout := live\<rparr>], q), False)) (\<lambda>s.
                    if snd s then f_propagate st (i + 1) (live AND NOT caller_saved) (fst s)
                    else Inr (fst s))))
      else Inl OutOfBounds)"

text \<open>
  The potential that bounds the loop: the length of the worklist plus the number of
  bits still clear in the \<open>f_livein\<close> masks.
\<close>

definition unset_bits :: "u64 \<Rightarrow> nat" where
  "unset_bits w = length (filter (\<lambda>n. \<not> bit w n) [0..<64])"

definition f_potential :: "RInsn list \<times> u32 list \<Rightarrow> nat" where
  "f_potential s = length (snd s) + sum_list (map (\<lambda>insn. unset_bits (f_livein insn)) (fst s))"



lemma unset_bits_le: "unset_bits w \<le> 64"
  unfolding unset_bits_def using length_filter_le[of "\<lambda>n. \<not> bit w n" "[0..<64]"] by simp

lemma unset_bits_or_less:
  assumes "w OR m \<noteq> w"
  shows "unset_bits (w OR m) < unset_bits w"
proof -
  from assms obtain n where n: "bit (w OR m) n \<noteq> bit w n"
    using bit_eq_iff by blast
  then have nb: "bit m n" "\<not> bit w n" by (auto simp: bit_or_iff)
  then have n64: "n < 64" using bit_imp_le_length[of m n] by simp
  let ?P = "\<lambda>n. \<not> bit w n" and ?Q = "\<lambda>n. \<not> bit (w OR m) n"
  have "filter ?Q [0..<64] = filter ?Q (filter ?P [0..<64])"
    by (auto simp: bit_or_iff intro!: filter_cong)
  moreover have "n \<in> set (filter ?P [0..<64])" using nb n64 by simp
  moreover have "\<not> ?Q n" using nb by (simp add: bit_or_iff)
  ultimately show ?thesis
    unfolding unset_bits_def using length_filter_less[of n "filter ?P [0..<64]" ?Q] by simp
qed

lemma sum_list_map_update:
  assumes "k < length xs"
  shows "sum_list (map g (xs[k := x])) + g (xs ! k) = sum_list (map g xs) + (g x :: nat)"
  using assms
proof (induction xs arbitrary: k)
  case Nil
  then show ?case by simp
next
  case (Cons a xs)
  then show ?case by (cases k) auto
qed

lemma f_propagate_potential:
  assumes "f_propagate st k m s = Inr s'"
  shows "f_potential s' \<le> f_potential s" "length (fst s') = length (fst s)"
proof -
  obtain rs q where s: "s = (rs, q)" by (cases s)
  show "length (fst s') = length (fst s)"
    using assms by (auto simp: s f_propagate_def split: if_splits)
  show "f_potential s' \<le> f_potential s"
  proof (cases "f_livein (rs ! k) OR m \<noteq> f_livein (rs ! k)")
    case True
    with assms have k: "k < length rs"
      and s': "s' = (rs[k := (rs ! k)\<lparr>f_livein := f_livein (rs ! k) OR m\<rparr>],
                  (text_vaddr st + of_nat k * 4) # q)"
      by (auto simp: s f_propagate_def split: if_splits)
    let ?g = "\<lambda>insn. unset_bits (f_livein insn)"
    have "sum_list (map ?g (rs[k := (rs ! k)\<lparr>f_livein := f_livein (rs ! k) OR m\<rparr>])) + ?g (rs ! k)
        = sum_list (map ?g rs) + unset_bits (f_livein (rs ! k) OR m)"
      using sum_list_map_update[OF k, of ?g] by simp
    moreover have "unset_bits (f_livein (rs ! k) OR m) < ?g (rs ! k)"
      using unset_bits_or_less[OF True] .
    ultimately show ?thesis by (simp add: s s' f_potential_def)
  next
    case False
    with assms have "s' = s" by (auto simp: s f_propagate_def split: if_splits)
    then show ?thesis by simp
  qed
qed

lemma f_successors_loop_potential:
  assumes "f_successors_loop L st i live es s = Inr s'"
  shows "f_potential (fst s') \<le> f_potential (fst s) \<and> length (fst (fst s')) = length (fst (fst s))"
  using assms
proof (induction es arbitrary: s)
  case Nil
  then show ?case by simp
next
  case (Cons e es)
  from Cons.prems obtain nl s1 where
    p: "f_propagate st (edge_i e) nl (fst s) = Inr s1"
    and r: "f_successors_loop L st i live es (s1, snd s \<or> (\<not> function_exit e \<and> function_entry e)) = Inr s'"
    by (auto simp: bindE_Inr)
  from Cons.IH[OF r] f_propagate_potential[OF p] show ?case by simp
qed

lemma r_insn_to_type_fields:
  "f_livein (snd (r_insn_to_type x)) = f_livein x"
  "f_liveout (snd (r_insn_to_type x)) = f_liveout x"
  "b_livein (snd (r_insn_to_type x)) = b_livein x"
  "b_liveout (snd (r_insn_to_type x)) = b_liveout x"
  "successors (snd (r_insn_to_type x)) = successors x"
  "predecessors (snd (r_insn_to_type x)) = predecessors x"
  by (simp_all add: r_insn_to_type_def Let_def)

lemma sum_list_map_update_same:
  assumes "k < length xs" "g x = g (xs ! k)"
  shows "sum_list (map g (xs[k := x])) = sum_list (map g xs :: nat list)"
  using sum_list_map_update[OF assms(1), of g x] assms(2) by simp

lemma r_pass4_step_potential:
  assumes "r_pass4_step L st rs addr q = Inr s'"
  shows "f_potential s' \<le> f_potential (rs, q)" "length (fst s') = length rs"
proof -
  let ?i = "addr_to_i st addr"
  let ?g = "\<lambda>insn. unset_bits (f_livein insn)"
  obtain ty insn where ti: "r_insn_to_type (rs ! ?i) = (ty, insn)" by (cases "r_insn_to_type (rs ! ?i)")
  then have insn: "insn = snd (r_insn_to_type (rs ! ?i))" by simp
  from assms have i: "?i < length rs"
    by (auto simp: r_pass4_step_def Let_def split: if_splits)
  have same: "\<And>v. f_potential (rs[?i := insn\<lparr>f_liveout := v\<rparr>], q) = f_potential (rs, q)"
    "f_potential (rs[?i := insn], q) = f_potential (rs, q)"
    using i by (simp_all add: f_potential_def insn r_insn_to_type_fields sum_list_map_update_same)
  let ?live0 = "f_transfer ty (instruction insn) (f_livein insn OR 1)"
  show "f_potential s' \<le> f_potential (rs, q)"
  proof (cases "f_liveout insn OR ?live0 = f_liveout insn")
    case True
    with assms i ti have "s' = (rs[?i := insn], q)"
      by (simp add: r_pass4_step_def Let_def)
    then show ?thesis using same by simp
  next
    case False
    let ?live = "?live0 OR f_liveout insn"
    from assms i ti False obtain s1 where
      l: "f_successors_loop L st ?i ?live (successors insn)
            ((rs[?i := insn\<lparr>f_liveout := ?live\<rparr>], q), False) = Inr s1"
      and f: "(if snd s1 then f_propagate st (?i + 1) (?live AND NOT caller_saved) (fst s1)
               else Inr (fst s1)) = Inr s'"
      by (auto simp: r_pass4_step_def Let_def bindE_Inr)
    have "f_potential (fst s1) \<le> f_potential (rs, q)"
      using f_successors_loop_potential[OF l] same by simp
    moreover have "f_potential s' \<le> f_potential (fst s1)"
      using f f_propagate_potential(1) by (auto split: if_splits)
    ultimately show ?thesis by simp
  qed
  show "length (fst s') = length rs"
  proof (cases "f_liveout insn OR ?live0 = f_liveout insn")
    case True
    with assms i ti have "s' = (rs[?i := insn], q)"
      by (simp add: r_pass4_step_def Let_def)
    then show ?thesis by simp
  next
    case False
    let ?live = "?live0 OR f_liveout insn"
    from assms i ti False obtain s1 where
      l: "f_successors_loop L st ?i ?live (successors insn)
            ((rs[?i := insn\<lparr>f_liveout := ?live\<rparr>], q), False) = Inr s1"
      and f: "(if snd s1 then f_propagate st (?i + 1) (?live AND NOT caller_saved) (fst s1)
               else Inr (fst s1)) = Inr s'"
      by (auto simp: r_pass4_step_def Let_def bindE_Inr)
    have "length (fst (fst s1)) = length rs"
      using f_successors_loop_potential[OF l] by simp
    moreover have "length (fst s') = length (fst (fst s1))"
      using f f_propagate_potential(2) by (auto split: if_splits)
    ultimately show ?thesis by simp
  qed
qed

function r_pass4_loop :: "rabbitizer \<Rightarrow> state \<Rightarrow> RInsn list \<times> u32 list \<Rightarrow> error + RInsn list" where
  "r_pass4_loop L st (rs, []) = Inr rs"
| "r_pass4_loop L st (rs, addr # q) =
     (case r_pass4_step L st rs addr q of
        Inl e \<Rightarrow> Inl e
      | Inr s \<Rightarrow> r_pass4_loop L st s)"
  by pat_completeness auto
termination
  by (relation "measure (\<lambda>(L, st, s). f_potential s)")
     (auto dest!: r_pass4_step_potential(1) simp: f_potential_def)


text \<open>
  The same loop with a bound on the number of pops: \<open>None\<close> when \<open>n\<close> pops did not
  empty the worklist.
\<close>

fun r_pass4_fuel ::
  "nat \<Rightarrow> rabbitizer \<Rightarrow> state \<Rightarrow> RInsn list \<times> u32 list \<Rightarrow> (error + RInsn list) option" where
  "r_pass4_fuel n L st (rs, []) = Some (Inr rs)"
| "r_pass4_fuel 0 L st (rs, addr # q) = None"
| "r_pass4_fuel (Suc n) L st (rs, addr # q) =
     (case r_pass4_step L st rs addr q of
        Inl e \<Rightarrow> Some (Inl e)
      | Inr s \<Rightarrow> r_pass4_fuel n L st s)"

text \<open>The seeding of the worklist: \<^verbatim>\<open>q.push_back(addr); rinsns[addr_to_i(addr)].f_livein = m\<close>.\<close>

fun f_seed ::
  "state \<Rightarrow> u64 \<Rightarrow> u32 list \<Rightarrow> RInsn list \<times> u32 list \<Rightarrow> error + RInsn list \<times> u32 list" where
  "f_seed st m [] s = Inr s"
| "f_seed st m (addr # addrs) s =
     (let i = addr_to_i st addr in
      if i < length (fst s)
      then f_seed st m addrs ((fst s)[i := (fst s ! i)\<lparr>f_livein := m\<rparr>], addr # snd s)
      else Inl OutOfBounds)"

definition r_pass4 :: "rabbitizer \<Rightarrow> state \<Rightarrow> error + state" where
  "r_pass4 L st =
     bindE (f_seed st livein_func_start [main_addr st] (rinsns st, [])) (\<lambda>s.
     bindE (f_seed st (livein_func_start OR r_map_reg REG_a2 OR r_map_reg REG_a3)
              (map snd (data_function_pointers st) @ li_function_pointers st) s) (\<lambda>s.
     bindE (r_pass4_loop L st s) (\<lambda>rs. Inr (st\<lparr>rinsns := rs\<rparr>))))"

subsection \<open>Backward pass (\<^verbatim>\<open>r_pass5\<close>)\<close>

text \<open>The \<^verbatim>\<open>switch (r_insn_to_type(insn))\<close> of the backward pass.\<close>

definition b_transfer :: "insn_type \<Rightarrow> RabbitizerInstruction \<Rightarrow> u64 \<Rightarrow> u64" where
  "b_transfer ty instr live =
     (case ty of
        TYPE_1S \<Rightarrow> live OR get_single_source_reg_mask instr
      | TYPE_1S_POS1 \<Rightarrow> live OR get_single_source_reg_mask instr
      | TYPE_2S \<Rightarrow> live OR get_all_source_reg_mask instr
      | TYPE_1D \<Rightarrow> live AND NOT (get_dest_reg_mask instr)
      | TYPE_1D_1S \<Rightarrow>
          (if live AND get_dest_reg_mask instr \<noteq> 0
           then (live AND NOT (get_dest_reg_mask instr)) OR get_single_source_reg_mask instr
           else live)
      | TYPE_1D_2S \<Rightarrow>
          (if live AND get_dest_reg_mask instr \<noteq> 0
           then (live AND NOT (get_dest_reg_mask instr)) OR get_all_source_reg_mask instr
           else live)
      | TYPE_D_LO_HI_2S \<Rightarrow>
          (let used = (live AND (r_map_reg REG_lo OR r_map_reg REG_hi) \<noteq> 0);
               live = live AND NOT (r_map_reg REG_lo OR r_map_reg REG_hi)
           in if used then live OR get_all_source_reg_mask instr else live)
      | TYPE_NOP \<Rightarrow> live)"

text \<open>
  One parameter character of the walk over \<^verbatim>\<open>found_fn->params + 1\<close>. The state is
  \<open>(pos, pos_float, only_floats_so_far, args)\<close>. The alignment test of the \<^verbatim>\<open>d\<close>,
  \<^verbatim>\<open>l\<close> and \<^verbatim>\<open>j\<close> cases is \<^verbatim>\<open>pos % 1 != 0\<close> in the source.
\<close>

fun walk_param :: "char \<Rightarrow> nat \<times> nat \<times> bool \<times> u64 \<Rightarrow> nat \<times> nat \<times> bool \<times> u64" where
  "walk_param c (pos, pos_float, only_floats_so_far, args) =
     (if c \<in> set ''iupt'' then
        (pos + 1, pos_float, False,
         if pos < 4 then args OR r_map_reg (REG_a0 + pos) else args)
      else if c = CHR ''f'' then
        (if only_floats_so_far \<and> pos_float < 4 then
           (pos + 1, pos_float + 2, only_floats_so_far, args)
         else if pos < 4 then
           (pos + 1, pos_float, only_floats_so_far, args OR r_map_reg (REG_a0 + pos))
         else (pos + 1, pos_float, only_floats_so_far, args))
      else if c = CHR ''d'' then
        (let pos = (if pos mod 1 \<noteq> 0 then pos + 1 else pos) in
         if only_floats_so_far \<and> pos_float < 4 then
           (pos + 2, pos_float + 2, only_floats_so_far, args)
         else if pos < 4 then
           (pos + 2, pos_float, only_floats_so_far,
            args OR r_map_reg (REG_a0 + pos) OR r_map_reg (REG_a0 + pos + 1))
         else (pos + 2, pos_float, only_floats_so_far, args))
      else if c \<in> set ''lj'' then
        (let pos = (if pos mod 1 \<noteq> 0 then pos + 1 else pos) in
         (pos + 2, pos_float, False,
          if pos < 4 then args OR r_map_reg (REG_a0 + pos) OR r_map_reg (REG_a0 + pos + 1)
          else args))
      else (pos, pos_float, only_floats_so_far, args))"

text \<open>
  The argument-register mask of a called external function: bit 0, all four \<open>$a\<close>
  registers for a vararg function, the registers found by the walk, and \<open>$sp\<close>.
\<close>

definition extern_args :: "string \<times> string \<times> int \<Rightarrow> error + u64" where
  "extern_args found_fn =
     (case fst (snd found_fn) of
        [] \<Rightarrow> Inl OutOfBounds
      | ret_type # params \<Rightarrow>
          (let args = (if snd (snd found_fn) AND FLAG_VARARG \<noteq> 0
                       then 1 OR r_map_reg (REG_a0 + 0) OR r_map_reg (REG_a0 + 1) OR
                            r_map_reg (REG_a0 + 2) OR r_map_reg (REG_a0 + 3)
                       else 1);
               w = fold walk_param params (0, 0, True, args)
           in Inr (snd (snd (snd w)) OR r_map_reg REG_sp)))"

text \<open>
  What crosses the edge \<open>e\<close> into instruction \<open>i\<close> in the backward pass. For an
  \<open>extern_function\<close> edge the callee is \<^verbatim>\<open>insn.patched ? insn.patched_addr :
  getInstrIndexAsVram(&rinsns[i - 2].instruction)\<close>, \<open>insn\<close> being the instruction at \<open>i\<close>.
\<close>

definition b_edge_live ::
  "rabbitizer \<Rightarrow> state \<Rightarrow> RInsn list \<Rightarrow> nat \<Rightarrow> Edge \<Rightarrow> u64 \<Rightarrow> error + u64" where
  "b_edge_live L st rs i e live =
     (if function_exit e then
        Inr (live AND (1 OR r_map_reg REG_v0 OR r_map_reg REG_v1))
      else if function_entry e then
        Inr (live AND (1 OR r_map_reg REG_v0 OR r_map_reg REG_a0 OR r_map_reg REG_a1 OR
                       r_map_reg REG_a2 OR r_map_reg REG_a3 OR r_map_reg REG_sp))
      else if extern_function e then
        bindE (if patched (rs ! i) then Inr (patched_addr (rs ! i))
               else if 2 \<le> i \<and> i - 2 < length rs
                    then Inr (getInstrIndexAsVram L (instruction (rs ! (i - 2))))
                    else Inl OutOfBounds) (\<lambda>address.
        bindE (find_extern st address) (\<lambda>found_fn.
        bindE (extern_args found_fn) (\<lambda>args.
          Inr ((live AND NOT caller_saved) OR args))))
      else if function_pointer e then
        Inr ((live AND NOT caller_saved) OR
             (r_map_reg REG_a0 OR r_map_reg REG_a1 OR r_map_reg REG_a2 OR r_map_reg REG_a3))
      else Inr live)"

definition b_propagate ::
  "state \<Rightarrow> nat \<Rightarrow> u64 \<Rightarrow> RInsn list \<times> u32 list \<Rightarrow> error + RInsn list \<times> u32 list" where
  "b_propagate st k new_live s =
     (case s of (rs, q) \<Rightarrow>
        if k < length rs then
          (if b_liveout (rs ! k) OR new_live \<noteq> b_liveout (rs ! k) then
             Inr (rs[k := (rs ! k)\<lparr>b_liveout := b_liveout (rs ! k) OR new_live\<rparr>],
                  (text_vaddr st + of_nat k * 4) # q)
           else Inr (rs, q))
        else Inl OutOfBounds)"

fun b_predecessors_loop ::
  "rabbitizer \<Rightarrow> state \<Rightarrow> nat \<Rightarrow> u64 \<Rightarrow> Edge list \<Rightarrow> (RInsn list \<times> u32 list) \<times> bool
     \<Rightarrow> error + (RInsn list \<times> u32 list) \<times> bool" where
  "b_predecessors_loop L st i live [] s = Inr s"
| "b_predecessors_loop L st i live (e # es) s =
     bindE (b_edge_live L st (fst (fst s)) i e live) (\<lambda>new_live.
     bindE (b_propagate st (edge_i e) new_live (fst s)) (\<lambda>s'.
       b_predecessors_loop L st i live es (s', snd s \<or> function_exit e)))"

text \<open>One iteration of \<^verbatim>\<open>while (!q.empty())\<close> of the backward pass.\<close>

definition r_pass5_step ::
  "rabbitizer \<Rightarrow> state \<Rightarrow> RInsn list \<Rightarrow> u32 \<Rightarrow> u32 list \<Rightarrow> error + RInsn list \<times> u32 list" where
  "r_pass5_step L st rs addr q =
     (let i = addr_to_i st addr in
      if i < length rs then
        (let (ty, insn) = r_insn_to_type (rs ! i);
             live = b_transfer ty (instruction insn) (b_liveout insn OR 1)
         in if b_livein insn OR live = b_livein insn then Inr (rs[i := insn], q)
            else
              (let live = live OR b_livein insn
               in bindE (b_predecessors_loop L st i live (predecessors insn)
                           ((rs[i := insn\<lparr>b_livein := live\<rparr>], q), False)) (\<lambda>s.
                    if snd s then
                      (if 1 \<le> i then b_propagate st (i - 1) (live AND NOT caller_saved) (fst s)
                       else Inl OutOfBounds)
                    else Inr (fst s))))
      else Inl OutOfBounds)"

definition b_potential :: "RInsn list \<times> u32 list \<Rightarrow> nat" where
  "b_potential s = length (snd s) + sum_list (map (\<lambda>insn. unset_bits (b_liveout insn)) (fst s))"


lemma b_propagate_potential:
  assumes "b_propagate st k m s = Inr s'"
  shows "b_potential s' \<le> b_potential s" "length (fst s') = length (fst s)"
proof -
  obtain rs q where s: "s = (rs, q)" by (cases s)
  show "length (fst s') = length (fst s)"
    using assms by (auto simp: s b_propagate_def split: if_splits)
  show "b_potential s' \<le> b_potential s"
  proof (cases "b_liveout (rs ! k) OR m \<noteq> b_liveout (rs ! k)")
    case True
    with assms have k: "k < length rs"
      and s': "s' = (rs[k := (rs ! k)\<lparr>b_liveout := b_liveout (rs ! k) OR m\<rparr>],
                  (text_vaddr st + of_nat k * 4) # q)"
      by (auto simp: s b_propagate_def split: if_splits)
    let ?g = "\<lambda>insn. unset_bits (b_liveout insn)"
    have "sum_list (map ?g (rs[k := (rs ! k)\<lparr>b_liveout := b_liveout (rs ! k) OR m\<rparr>])) + ?g (rs ! k)
        = sum_list (map ?g rs) + unset_bits (b_liveout (rs ! k) OR m)"
      using sum_list_map_update[OF k, of ?g] by simp
    moreover have "unset_bits (b_liveout (rs ! k) OR m) < ?g (rs ! k)"
      using unset_bits_or_less[OF True] .
    ultimately show ?thesis by (simp add: s s' b_potential_def)
  next
    case False
    with assms have "s' = s" by (auto simp: s b_propagate_def split: if_splits)
    then show ?thesis by simp
  qed
qed

lemma b_predecessors_loop_potential:
  assumes "b_predecessors_loop L st i live es s = Inr s'"
  shows "b_potential (fst s') \<le> b_potential (fst s) \<and> length (fst (fst s')) = length (fst (fst s))"
  using assms
proof (induction es arbitrary: s)
  case Nil
  then show ?case by simp
next
  case (Cons e es)
  from Cons.prems obtain nl s1 where
    p: "b_propagate st (edge_i e) nl (fst s) = Inr s1"
    and r: "b_predecessors_loop L st i live es (s1, snd s \<or> function_exit e) = Inr s'"
    by (auto simp: bindE_Inr)
  from Cons.IH[OF r] b_propagate_potential[OF p] show ?case by simp
qed

lemma r_pass5_step_potential:
  assumes "r_pass5_step L st rs addr q = Inr s'"
  shows "b_potential s' \<le> b_potential (rs, q)" "length (fst s') = length rs"
proof -
  let ?i = "addr_to_i st addr"
  let ?g = "\<lambda>insn. unset_bits (b_liveout insn)"
  obtain ty insn where ti: "r_insn_to_type (rs ! ?i) = (ty, insn)" by (cases "r_insn_to_type (rs ! ?i)")
  then have insn: "insn = snd (r_insn_to_type (rs ! ?i))" by simp
  from assms have i: "?i < length rs"
    by (auto simp: r_pass5_step_def Let_def split: if_splits)
  have same: "\<And>v. b_potential (rs[?i := insn\<lparr>b_livein := v\<rparr>], q) = b_potential (rs, q)"
    "b_potential (rs[?i := insn], q) = b_potential (rs, q)"
    using i by (simp_all add: b_potential_def insn r_insn_to_type_fields sum_list_map_update_same)
  let ?live0 = "b_transfer ty (instruction insn) (b_liveout insn OR 1)"
  show "b_potential s' \<le> b_potential (rs, q)"
  proof (cases "b_livein insn OR ?live0 = b_livein insn")
    case True
    with assms i ti have "s' = (rs[?i := insn], q)"
      by (simp add: r_pass5_step_def Let_def)
    then show ?thesis using same by simp
  next
    case False
    let ?live = "?live0 OR b_livein insn"
    from assms i ti False obtain s1 where
      l: "b_predecessors_loop L st ?i ?live (predecessors insn)
            ((rs[?i := insn\<lparr>b_livein := ?live\<rparr>], q), False) = Inr s1"
      and f: "(if snd s1 then
                 (if 1 \<le> ?i then b_propagate st (?i - 1) (?live AND NOT caller_saved) (fst s1)
                  else Inl OutOfBounds)
               else Inr (fst s1)) = Inr s'"
      by (auto simp: r_pass5_step_def Let_def bindE_Inr)
    have "b_potential (fst s1) \<le> b_potential (rs, q)"
      using b_predecessors_loop_potential[OF l] same by simp
    moreover have "b_potential s' \<le> b_potential (fst s1)"
      using f b_propagate_potential(1) by (auto split: if_splits)
    ultimately show ?thesis by simp
  qed
  show "length (fst s') = length rs"
  proof (cases "b_livein insn OR ?live0 = b_livein insn")
    case True
    with assms i ti have "s' = (rs[?i := insn], q)"
      by (simp add: r_pass5_step_def Let_def)
    then show ?thesis by simp
  next
    case False
    let ?live = "?live0 OR b_livein insn"
    from assms i ti False obtain s1 where
      l: "b_predecessors_loop L st ?i ?live (predecessors insn)
            ((rs[?i := insn\<lparr>b_livein := ?live\<rparr>], q), False) = Inr s1"
      and f: "(if snd s1 then
                 (if 1 \<le> ?i then b_propagate st (?i - 1) (?live AND NOT caller_saved) (fst s1)
                  else Inl OutOfBounds)
               else Inr (fst s1)) = Inr s'"
      by (auto simp: r_pass5_step_def Let_def bindE_Inr)
    have "length (fst (fst s1)) = length rs"
      using b_predecessors_loop_potential[OF l] by simp
    moreover have "length (fst s') = length (fst (fst s1))"
      using f b_propagate_potential(2) by (auto split: if_splits)
    ultimately show ?thesis by simp
  qed
qed

function r_pass5_loop :: "rabbitizer \<Rightarrow> state \<Rightarrow> RInsn list \<times> u32 list \<Rightarrow> error + RInsn list" where
  "r_pass5_loop L st (rs, []) = Inr rs"
| "r_pass5_loop L st (rs, addr # q) =
     (case r_pass5_step L st rs addr q of
        Inl e \<Rightarrow> Inl e
      | Inr s \<Rightarrow> r_pass5_loop L st s)"
  by pat_completeness auto
termination
  by (relation "measure (\<lambda>(L, st, s). b_potential s)")
     (auto dest!: r_pass5_step_potential(1) simp: b_potential_def)



fun r_pass5_fuel ::
  "nat \<Rightarrow> rabbitizer \<Rightarrow> state \<Rightarrow> RInsn list \<times> u32 list \<Rightarrow> (error + RInsn list) option" where
  "r_pass5_fuel n L st (rs, []) = Some (Inr rs)"
| "r_pass5_fuel 0 L st (rs, addr # q) = None"
| "r_pass5_fuel (Suc n) L st (rs, addr # q) =
     (case r_pass5_step L st rs addr q of
        Inl e \<Rightarrow> Some (Inl e)
      | Inr s \<Rightarrow> r_pass5_fuel n L st s)"

text \<open>The seeding loops: \<^verbatim>\<open>q.push_back(addr); rinsns[addr_to_i(addr)].b_liveout = m\<close>.\<close>

fun b_seed ::
  "state \<Rightarrow> u64 \<Rightarrow> u32 list \<Rightarrow> RInsn list \<times> u32 list \<Rightarrow> error + RInsn list \<times> u32 list" where
  "b_seed st m [] s = Inr s"
| "b_seed st m (addr # addrs) s =
     (let i = addr_to_i st addr in
      if i < length (fst s)
      then b_seed st m addrs ((fst s)[i := (fst s ! i)\<lparr>b_liveout := m\<rparr>], addr # snd s)
      else Inl OutOfBounds)"

fun b_seed_functions ::
  "state \<Rightarrow> u64 \<Rightarrow> u32 list \<Rightarrow> (u32 \<times> Function) list \<times> RInsn list \<times> u32 list
     \<Rightarrow> error + (u32 \<times> Function) list \<times> RInsn list \<times> u32 list" where
  "b_seed_functions st m [] ts = Inr ts"
| "b_seed_functions st m (func_addr # func_addrs) ts =
     (let tbl = touch_function (fst ts) func_addr in
      bindE (b_seed st m (returns (function_at tbl func_addr)) (snd ts)) (\<lambda>s.
        b_seed_functions st m func_addrs (tbl, s)))"

text \<open>The last seeding loop pushes every instruction with a non-zero \<open>f_livein\<close>.\<close>

definition push_reachable :: "state \<Rightarrow> RInsn list \<times> u32 list \<Rightarrow> RInsn list \<times> u32 list" where
  "push_reachable st s =
     (fst s,
      rev (map (\<lambda>i. text_vaddr st + of_nat i * 4)
             (filter (\<lambda>i. f_livein (fst s ! i) \<noteq> 0) [0..<length (fst s)])) @ snd s)"

definition r_pass5 :: "rabbitizer \<Rightarrow> state \<Rightarrow> error + state" where
  "r_pass5 L st =
     (case map_of (functions_tbl st) (main_addr st) of
        None \<Rightarrow> Inl AssertFailed
      | Some main_func \<Rightarrow>
          bindE (b_seed st (1 OR r_map_reg REG_v0) (returns main_func) (rinsns st, [])) (\<lambda>s.
          bindE (b_seed_functions st (1 OR r_map_reg REG_v0 OR r_map_reg REG_v1)
                   (map snd (data_function_pointers st) @ li_function_pointers st)
                   (functions_tbl st, s)) (\<lambda>ts.
          bindE (r_pass5_loop L st (push_reachable st (snd ts))) (\<lambda>rs.
            Inr (st\<lparr>rinsns := rs, functions_tbl := fst ts\<rparr>)))))"

subsection \<open>The parameter walk and the alignment of 64-bit arguments\<close>

text \<open>
  The walk as the specification describes it: \<^verbatim>\<open>d\<close>, \<^verbatim>\<open>l\<close> and \<^verbatim>\<open>j\<close> first align
  \<open>pos\<close> up to the next even value, and then do what the source does.
\<close>

fun walk_param_aligned :: "char \<Rightarrow> nat \<times> nat \<times> bool \<times> u64 \<Rightarrow> nat \<times> nat \<times> bool \<times> u64" where
  "walk_param_aligned c (pos, pos_float, only_floats_so_far, args) =
     (if c \<in> set ''dlj'' then
        walk_param c (if pos mod 2 \<noteq> 0 then pos + 1 else pos, pos_float, only_floats_so_far, args)
      else walk_param c (pos, pos_float, only_floats_so_far, args))"

definition extern_args_aligned :: "string \<times> string \<times> int \<Rightarrow> error + u64" where
  "extern_args_aligned found_fn =
     (case fst (snd found_fn) of
        [] \<Rightarrow> Inl OutOfBounds
      | ret_type # params \<Rightarrow>
          (let args = (if snd (snd found_fn) AND FLAG_VARARG \<noteq> 0
                       then 1 OR r_map_reg (REG_a0 + 0) OR r_map_reg (REG_a0 + 1) OR
                            r_map_reg (REG_a0 + 2) OR r_map_reg (REG_a0 + 3)
                       else 1);
               w = fold walk_param_aligned params (0, 0, True, args)
           in Inr (snd (snd (snd w)) OR r_map_reg REG_sp)))"

text \<open>
  The walk of the source never aligns: whatever the parity of \<open>pos\<close>, an integer or
  float parameter advances it by one and a \<^verbatim>\<open>d\<close>, \<^verbatim>\<open>l\<close> or \<^verbatim>\<open>j\<close> parameter by two.
\<close>

lemma walk_param_pos:
  "fst (walk_param c (pos, pos_float, only_floats_so_far, args)) =
     pos + (if c \<in> set ''iuptf'' then 1 else if c \<in> set ''dlj'' then 2 else 0)"
  by (auto simp: Let_def)


text \<open>
  No entry of the catalogue that is compiled into the tool has a \<^verbatim>\<open>d\<close>, \<^verbatim>\<open>l\<close> or
  \<^verbatim>\<open>j\<close> parameter at a position where the alignment would change the mask.
\<close>

lemma catalogue_walk_agrees:
  "list_all (\<lambda>fn. extern_args fn = extern_args_aligned fn) extern_functions"
  by code_simp


subsection \<open>Monotonicity and termination of the two passes\<close>

text \<open>\<open>subset_mask a b\<close>: every bit of \<open>a\<close> is set in \<open>b\<close>.\<close>

definition subset_mask :: "u64 \<Rightarrow> u64 \<Rightarrow> bool" where
  "subset_mask a b \<longleftrightarrow> a OR b = b"

text \<open>
  What one iteration of the forward pass may do to the vector and the worklist: the
  vector keeps its length, no \<open>f_livein\<close> or \<open>f_liveout\<close> mask loses a bit, and every
  address pushed on the worklist is that of an instruction whose \<open>f_livein\<close> has
  strictly grown.
\<close>

definition f_grows :: "state \<Rightarrow> RInsn list \<times> u32 list \<Rightarrow> RInsn list \<times> u32 list \<Rightarrow> bool" where
  "f_grows st s s' \<longleftrightarrow>
     length (fst s') = length (fst s) \<and>
     (\<forall>k<length (fst s).
        subset_mask (f_livein (fst s ! k)) (f_livein (fst s' ! k)) \<and>
        subset_mask (f_liveout (fst s ! k)) (f_liveout (fst s' ! k))) \<and>
     (\<exists>new. snd s' = new @ snd s \<and>
        (\<forall>a\<in>set new. \<exists>k<length (fst s). a = text_vaddr st + of_nat k * 4 \<and>
            f_livein (fst s' ! k) \<noteq> f_livein (fst s ! k)))"

text \<open>The same for the backward pass, which propagates into \<open>b_liveout\<close>.\<close>

definition b_grows :: "state \<Rightarrow> RInsn list \<times> u32 list \<Rightarrow> RInsn list \<times> u32 list \<Rightarrow> bool" where
  "b_grows st s s' \<longleftrightarrow>
     length (fst s') = length (fst s) \<and>
     (\<forall>k<length (fst s).
        subset_mask (b_livein (fst s ! k)) (b_livein (fst s' ! k)) \<and>
        subset_mask (b_liveout (fst s ! k)) (b_liveout (fst s' ! k))) \<and>
     (\<exists>new. snd s' = new @ snd s \<and>
        (\<forall>a\<in>set new. \<exists>k<length (fst s). a = text_vaddr st + of_nat k * 4 \<and>
            b_liveout (fst s' ! k) \<noteq> b_liveout (fst s ! k)))"



lemma subset_mask_refl [simp]: "subset_mask a a"
  by (simp add: subset_mask_def)

lemma subset_mask_or [simp]: "subset_mask a (a OR m)" "subset_mask a (m OR a)"
  by (auto simp: subset_mask_def bit_eq_iff bit_or_iff)

lemma subset_mask_trans: "subset_mask a b \<Longrightarrow> subset_mask b c \<Longrightarrow> subset_mask a c"
  unfolding subset_mask_def bit_eq_iff bit_or_iff by blast

lemma subset_mask_antisym: "subset_mask a b \<Longrightarrow> subset_mask b a \<Longrightarrow> a = b"
  unfolding subset_mask_def bit_eq_iff bit_or_iff by blast

lemma subset_mask_strict:
  assumes "subset_mask a b" "subset_mask b c" "a \<noteq> b \<or> b \<noteq> c"
  shows "c \<noteq> a"
  using assms subset_mask_antisym by blast

lemma f_grows_refl: "f_grows st s s"
  unfolding f_grows_def by auto

lemma f_grows_trans:
  assumes "f_grows st s0 s1" "f_grows st s1 s2"
  shows "f_grows st s0 s2"
proof -
  from assms(1) obtain n1 where
    l1: "length (fst s1) = length (fst s0)"
    and m1: "\<And>k. k < length (fst s0) \<Longrightarrow>
        subset_mask (f_livein (fst s0 ! k)) (f_livein (fst s1 ! k)) \<and>
        subset_mask (f_liveout (fst s0 ! k)) (f_liveout (fst s1 ! k))"
    and q1: "snd s1 = n1 @ snd s0"
    and p1: "\<And>a. a \<in> set n1 \<Longrightarrow> \<exists>k<length (fst s0). a = text_vaddr st + of_nat k * 4 \<and>
            f_livein (fst s1 ! k) \<noteq> f_livein (fst s0 ! k)"
    unfolding f_grows_def by blast
  from assms(2) obtain n2 where
    l2: "length (fst s2) = length (fst s1)"
    and m2: "\<And>k. k < length (fst s1) \<Longrightarrow>
        subset_mask (f_livein (fst s1 ! k)) (f_livein (fst s2 ! k)) \<and>
        subset_mask (f_liveout (fst s1 ! k)) (f_liveout (fst s2 ! k))"
    and q2: "snd s2 = n2 @ snd s1"
    and p2: "\<And>a. a \<in> set n2 \<Longrightarrow> \<exists>k<length (fst s1). a = text_vaddr st + of_nat k * 4 \<and>
            f_livein (fst s2 ! k) \<noteq> f_livein (fst s1 ! k)"
    unfolding f_grows_def by blast
  have mono: "\<And>k. k < length (fst s0) \<Longrightarrow>
        subset_mask (f_livein (fst s0 ! k)) (f_livein (fst s2 ! k)) \<and>
        subset_mask (f_liveout (fst s0 ! k)) (f_liveout (fst s2 ! k))"
  proof -
    fix k assume k: "k < length (fst s0)"
    then have k1: "k < length (fst s1)" using l1 by simp
    from m1[OF k] m2[OF k1] show "subset_mask (f_livein (fst s0 ! k)) (f_livein (fst s2 ! k)) \<and>
        subset_mask (f_liveout (fst s0 ! k)) (f_liveout (fst s2 ! k))"
      using subset_mask_trans by blast
  qed
  have push: "\<exists>k<length (fst s0). a = text_vaddr st + of_nat k * 4 \<and>
            f_livein (fst s2 ! k) \<noteq> f_livein (fst s0 ! k)" if "a \<in> set (n2 @ n1)" for a
  proof -
    have strict: "f_livein (fst s2 ! k) \<noteq> f_livein (fst s0 ! k)"
      if k: "k < length (fst s0)"
        and d: "f_livein (fst s1 ! k) \<noteq> f_livein (fst s0 ! k) \<or>
                f_livein (fst s2 ! k) \<noteq> f_livein (fst s1 ! k)" for k
    proof -
      have k1: "k < length (fst s1)" using k l1 by simp
      show ?thesis
        by (rule subset_mask_strict[of "f_livein (fst s0 ! k)" "f_livein (fst s1 ! k)"])
           (use m1[OF k] m2[OF k1] d in auto)
    qed
    from that have "a \<in> set n1 \<or> a \<in> set n2" by auto
    then show ?thesis
    proof
      assume "a \<in> set n1"
      from p1[OF this] obtain k where "k < length (fst s0)" "a = text_vaddr st + of_nat k * 4"
        "f_livein (fst s1 ! k) \<noteq> f_livein (fst s0 ! k)" by blast
      with strict[of k] show ?thesis by blast
    next
      assume "a \<in> set n2"
      from p2[OF this] obtain k where "k < length (fst s1)" "a = text_vaddr st + of_nat k * 4"
        "f_livein (fst s2 ! k) \<noteq> f_livein (fst s1 ! k)" by blast
      with strict[of k] l1 show ?thesis by auto
    qed
  qed
  show ?thesis
    unfolding f_grows_def
    using l1 l2 mono push q1 q2 by (intro conjI exI[where x="n2 @ n1"]) auto
qed

lemma f_propagate_grows:
  assumes "f_propagate st k m s = Inr s'"
  shows "f_grows st s s'"
proof -
  obtain rs q where s: "s = (rs, q)" by (cases s)
  show ?thesis
  proof (cases "f_livein (rs ! k) OR m \<noteq> f_livein (rs ! k)")
    case True
    with assms have k: "k < length rs"
      and s': "s' = (rs[k := (rs ! k)\<lparr>f_livein := f_livein (rs ! k) OR m\<rparr>],
                  (text_vaddr st + of_nat k * 4) # q)"
      by (auto simp: s f_propagate_def split: if_splits)
    show ?thesis
      unfolding f_grows_def s s' using k True
      by (auto simp: nth_list_update intro!: exI[where x="[text_vaddr st + of_nat k * 4]"])
  next
    case False
    with assms have "s' = s" by (auto simp: s f_propagate_def split: if_splits)
    then show ?thesis by (simp add: f_grows_refl)
  qed
qed

lemma f_successors_loop_grows:
  assumes "f_successors_loop L st i live es s = Inr s'"
  shows "f_grows st (fst s) (fst s')"
  using assms
proof (induction es arbitrary: s)
  case Nil
  then show ?case by (simp add: f_grows_refl)
next
  case (Cons e es)
  from Cons.prems obtain nl s1 where
    p: "f_propagate st (edge_i e) nl (fst s) = Inr s1"
    and r: "f_successors_loop L st i live es (s1, snd s \<or> (\<not> function_exit e \<and> function_entry e)) = Inr s'"
    by (auto simp: bindE_Inr)
  have "f_grows st (fst s) s1" using f_propagate_grows[OF p] .
  moreover have "f_grows st s1 (fst s')" using Cons.IH[OF r] by simp
  ultimately show ?case by (rule f_grows_trans)
qed

lemma r_pass4_step_grows:
  assumes "r_pass4_step L st rs addr q = Inr s'"
  shows "f_grows st (rs, q) s'"
proof -
  let ?i = "addr_to_i st addr"
  obtain ty insn where ti: "r_insn_to_type (rs ! ?i) = (ty, insn)" by (cases "r_insn_to_type (rs ! ?i)")
  then have insn: "insn = snd (r_insn_to_type (rs ! ?i))" by simp
  from assms have i: "?i < length rs"
    by (auto simp: r_pass4_step_def Let_def split: if_splits)
  have same: "\<And>v. subset_mask (f_liveout insn) v \<Longrightarrow>
      f_grows st (rs, q) (rs[?i := insn\<lparr>f_liveout := v\<rparr>], q)"
    "f_grows st (rs, q) (rs[?i := insn], q)"
    using i by (auto simp: f_grows_def insn r_insn_to_type_fields nth_list_update)
  let ?live0 = "f_transfer ty (instruction insn) (f_livein insn OR 1)"
  show ?thesis
  proof (cases "f_liveout insn OR ?live0 = f_liveout insn")
    case True
    with assms i ti have "s' = (rs[?i := insn], q)"
      by (simp add: r_pass4_step_def Let_def)
    then show ?thesis using same by simp
  next
    case False
    let ?live = "?live0 OR f_liveout insn"
    from assms i ti False obtain s1 where
      l: "f_successors_loop L st ?i ?live (successors insn)
            ((rs[?i := insn\<lparr>f_liveout := ?live\<rparr>], q), False) = Inr s1"
      and f: "(if snd s1 then f_propagate st (?i + 1) (?live AND NOT caller_saved) (fst s1)
               else Inr (fst s1)) = Inr s'"
      by (auto simp: r_pass4_step_def Let_def bindE_Inr)
    have "f_grows st (rs, q) (rs[?i := insn\<lparr>f_liveout := ?live\<rparr>], q)"
      by (rule same(1)) simp
    moreover have "f_grows st (rs[?i := insn\<lparr>f_liveout := ?live\<rparr>], q) (fst s1)"
      using f_successors_loop_grows[OF l] by simp
    moreover have "f_grows st (fst s1) s'"
      using f f_propagate_grows by (auto split: if_splits simp: f_grows_refl)
    ultimately show ?thesis using f_grows_trans by blast
  qed
qed

lemma f_potential_bound: "f_potential (rs, q) \<le> length q + 64 * length rs"
proof -
  have "sum_list (map (\<lambda>insn. unset_bits (f_livein insn)) rs) \<le> 64 * length rs"
    by (induction rs) (auto intro: add_mono unset_bits_le)
  then show ?thesis by (simp add: f_potential_def)
qed

lemma r_pass4_fuel_enough:
  assumes "f_potential s \<le> n"
  shows "r_pass4_fuel n L st s = Some (r_pass4_loop L st s)"
  using assms
proof (induction n arbitrary: s)
  case 0
  obtain rs q where s: "s = (rs, q)" by (cases s)
  with 0 have "q = []" by (simp add: f_potential_def)
  then show ?case by (simp add: s)
next
  case (Suc n)
  obtain rs q where s: "s = (rs, q)" by (cases s)
  show ?case
  proof (cases q)
    case Nil
    then show ?thesis by (simp add: s)
  next
    case (Cons addr q')
    show ?thesis
    proof (cases "r_pass4_step L st rs addr q'")
      case (Inl e)
      then show ?thesis by (simp add: s Cons)
    next
      case (Inr s1)
      have "f_potential s1 \<le> f_potential (rs, q')" using r_pass4_step_potential(1)[OF Inr] .
      also have "\<dots> \<le> n" using Suc.prems by (simp add: s Cons f_potential_def)
      finally have "r_pass4_fuel n L st s1 = Some (r_pass4_loop L st s1)" by (rule Suc.IH)
      then show ?thesis by (simp add: s Cons Inr)
    qed
  qed
qed


lemma b_grows_refl: "b_grows st s s"
  unfolding b_grows_def by auto

lemma b_grows_trans:
  assumes "b_grows st s0 s1" "b_grows st s1 s2"
  shows "b_grows st s0 s2"
proof -
  from assms(1) obtain n1 where
    l1: "length (fst s1) = length (fst s0)"
    and m1: "\<And>k. k < length (fst s0) \<Longrightarrow>
        subset_mask (b_liveout (fst s0 ! k)) (b_liveout (fst s1 ! k)) \<and>
        subset_mask (b_livein (fst s0 ! k)) (b_livein (fst s1 ! k))"
    and q1: "snd s1 = n1 @ snd s0"
    and p1: "\<And>a. a \<in> set n1 \<Longrightarrow> \<exists>k<length (fst s0). a = text_vaddr st + of_nat k * 4 \<and>
            b_liveout (fst s1 ! k) \<noteq> b_liveout (fst s0 ! k)"
    unfolding b_grows_def by blast
  from assms(2) obtain n2 where
    l2: "length (fst s2) = length (fst s1)"
    and m2: "\<And>k. k < length (fst s1) \<Longrightarrow>
        subset_mask (b_liveout (fst s1 ! k)) (b_liveout (fst s2 ! k)) \<and>
        subset_mask (b_livein (fst s1 ! k)) (b_livein (fst s2 ! k))"
    and q2: "snd s2 = n2 @ snd s1"
    and p2: "\<And>a. a \<in> set n2 \<Longrightarrow> \<exists>k<length (fst s1). a = text_vaddr st + of_nat k * 4 \<and>
            b_liveout (fst s2 ! k) \<noteq> b_liveout (fst s1 ! k)"
    unfolding b_grows_def by blast
  have mono: "\<And>k. k < length (fst s0) \<Longrightarrow>
        subset_mask (b_liveout (fst s0 ! k)) (b_liveout (fst s2 ! k)) \<and>
        subset_mask (b_livein (fst s0 ! k)) (b_livein (fst s2 ! k))"
  proof -
    fix k assume k: "k < length (fst s0)"
    then have k1: "k < length (fst s1)" using l1 by simp
    from m1[OF k] m2[OF k1] show "subset_mask (b_liveout (fst s0 ! k)) (b_liveout (fst s2 ! k)) \<and>
        subset_mask (b_livein (fst s0 ! k)) (b_livein (fst s2 ! k))"
      using subset_mask_trans by blast
  qed
  have push: "\<exists>k<length (fst s0). a = text_vaddr st + of_nat k * 4 \<and>
            b_liveout (fst s2 ! k) \<noteq> b_liveout (fst s0 ! k)" if "a \<in> set (n2 @ n1)" for a
  proof -
    have strict: "b_liveout (fst s2 ! k) \<noteq> b_liveout (fst s0 ! k)"
      if k: "k < length (fst s0)"
        and d: "b_liveout (fst s1 ! k) \<noteq> b_liveout (fst s0 ! k) \<or>
                b_liveout (fst s2 ! k) \<noteq> b_liveout (fst s1 ! k)" for k
    proof -
      have k1: "k < length (fst s1)" using k l1 by simp
      show ?thesis
        by (rule subset_mask_strict[of "b_liveout (fst s0 ! k)" "b_liveout (fst s1 ! k)"])
           (use m1[OF k] m2[OF k1] d in auto)
    qed
    from that have "a \<in> set n1 \<or> a \<in> set n2" by auto
    then show ?thesis
    proof
      assume "a \<in> set n1"
      from p1[OF this] obtain k where "k < length (fst s0)" "a = text_vaddr st + of_nat k * 4"
        "b_liveout (fst s1 ! k) \<noteq> b_liveout (fst s0 ! k)" by blast
      with strict[of k] show ?thesis by blast
    next
      assume "a \<in> set n2"
      from p2[OF this] obtain k where "k < length (fst s1)" "a = text_vaddr st + of_nat k * 4"
        "b_liveout (fst s2 ! k) \<noteq> b_liveout (fst s1 ! k)" by blast
      with strict[of k] l1 show ?thesis by auto
    qed
  qed
  show ?thesis
    unfolding b_grows_def
    using l1 l2 mono push q1 q2 by (intro conjI exI[where x="n2 @ n1"]) auto
qed

lemma b_propagate_grows:
  assumes "b_propagate st k m s = Inr s'"
  shows "b_grows st s s'"
proof -
  obtain rs q where s: "s = (rs, q)" by (cases s)
  show ?thesis
  proof (cases "b_liveout (rs ! k) OR m \<noteq> b_liveout (rs ! k)")
    case True
    with assms have k: "k < length rs"
      and s': "s' = (rs[k := (rs ! k)\<lparr>b_liveout := b_liveout (rs ! k) OR m\<rparr>],
                  (text_vaddr st + of_nat k * 4) # q)"
      by (auto simp: s b_propagate_def split: if_splits)
    show ?thesis
      unfolding b_grows_def s s' using k True
      by (auto simp: nth_list_update intro!: exI[where x="[text_vaddr st + of_nat k * 4]"])
  next
    case False
    with assms have "s' = s" by (auto simp: s b_propagate_def split: if_splits)
    then show ?thesis by (simp add: b_grows_refl)
  qed
qed

lemma b_predecessors_loop_grows:
  assumes "b_predecessors_loop L st i live es s = Inr s'"
  shows "b_grows st (fst s) (fst s')"
  using assms
proof (induction es arbitrary: s)
  case Nil
  then show ?case by (simp add: b_grows_refl)
next
  case (Cons e es)
  from Cons.prems obtain nl s1 where
    p: "b_propagate st (edge_i e) nl (fst s) = Inr s1"
    and r: "b_predecessors_loop L st i live es (s1, snd s \<or> function_exit e) = Inr s'"
    by (auto simp: bindE_Inr)
  have "b_grows st (fst s) s1" using b_propagate_grows[OF p] .
  moreover have "b_grows st s1 (fst s')" using Cons.IH[OF r] by simp
  ultimately show ?case by (rule b_grows_trans)
qed

lemma r_pass5_step_grows:
  assumes "r_pass5_step L st rs addr q = Inr s'"
  shows "b_grows st (rs, q) s'"
proof -
  let ?i = "addr_to_i st addr"
  obtain ty insn where ti: "r_insn_to_type (rs ! ?i) = (ty, insn)" by (cases "r_insn_to_type (rs ! ?i)")
  then have insn: "insn = snd (r_insn_to_type (rs ! ?i))" by simp
  from assms have i: "?i < length rs"
    by (auto simp: r_pass5_step_def Let_def split: if_splits)
  have same: "\<And>v. subset_mask (b_livein insn) v \<Longrightarrow>
      b_grows st (rs, q) (rs[?i := insn\<lparr>b_livein := v\<rparr>], q)"
    "b_grows st (rs, q) (rs[?i := insn], q)"
    using i by (auto simp: b_grows_def insn r_insn_to_type_fields nth_list_update)
  let ?live0 = "b_transfer ty (instruction insn) (b_liveout insn OR 1)"
  show ?thesis
  proof (cases "b_livein insn OR ?live0 = b_livein insn")
    case True
    with assms i ti have "s' = (rs[?i := insn], q)"
      by (simp add: r_pass5_step_def Let_def)
    then show ?thesis using same by simp
  next
    case False
    let ?live = "?live0 OR b_livein insn"
    from assms i ti False obtain s1 where
      l: "b_predecessors_loop L st ?i ?live (predecessors insn)
            ((rs[?i := insn\<lparr>b_livein := ?live\<rparr>], q), False) = Inr s1"
      and f: "(if snd s1 then
                 (if 1 \<le> ?i then b_propagate st (?i - 1) (?live AND NOT caller_saved) (fst s1)
                  else Inl OutOfBounds)
               else Inr (fst s1)) = Inr s'"
      by (auto simp: r_pass5_step_def Let_def bindE_Inr)
    have "b_grows st (rs, q) (rs[?i := insn\<lparr>b_livein := ?live\<rparr>], q)"
      by (rule same(1)) simp
    moreover have "b_grows st (rs[?i := insn\<lparr>b_livein := ?live\<rparr>], q) (fst s1)"
      using b_predecessors_loop_grows[OF l] by simp
    moreover have "b_grows st (fst s1) s'"
      using f b_propagate_grows by (auto split: if_splits simp: b_grows_refl)
    ultimately show ?thesis using b_grows_trans by blast
  qed
qed

lemma b_potential_bound: "b_potential (rs, q) \<le> length q + 64 * length rs"
proof -
  have "sum_list (map (\<lambda>insn. unset_bits (b_liveout insn)) rs) \<le> 64 * length rs"
    by (induction rs) (auto intro: add_mono unset_bits_le)
  then show ?thesis by (simp add: b_potential_def)
qed

lemma r_pass5_fuel_enough:
  assumes "b_potential s \<le> n"
  shows "r_pass5_fuel n L st s = Some (r_pass5_loop L st s)"
  using assms
proof (induction n arbitrary: s)
  case 0
  obtain rs q where s: "s = (rs, q)" by (cases s)
  with 0 have "q = []" by (simp add: b_potential_def)
  then show ?case by (simp add: s)
next
  case (Suc n)
  obtain rs q where s: "s = (rs, q)" by (cases s)
  show ?case
  proof (cases q)
    case Nil
    then show ?thesis by (simp add: s)
  next
    case (Cons addr q')
    show ?thesis
    proof (cases "r_pass5_step L st rs addr q'")
      case (Inl e)
      then show ?thesis by (simp add: s Cons)
    next
      case (Inr s1)
      have "b_potential s1 \<le> b_potential (rs, q')" using r_pass5_step_potential(1)[OF Inr] .
      also have "\<dots> \<le> n" using Suc.prems by (simp add: s Cons b_potential_def)
      finally have "r_pass5_fuel n L st s1 = Some (r_pass5_loop L st s1)" by (rule Suc.IH)
      then show ?thesis by (simp add: s Cons Inr)
    qed
  qed
qed




text \<open>The example program after \<^verbatim>\<open>r_pass3\<close>, and the first seed of each pass.\<close>

definition call_cfg :: "RInsn list" where
  "call_cfg = rinsns (projr (r_pass3 mips_lib call_state))"

definition call_seeded :: "RInsn list \<times> u32 list" where
  "call_seeded = projr (f_seed call_state livein_func_start [main_addr call_state] (call_cfg, []))"

definition call_b_seeded :: "RInsn list \<times> u32 list" where
  "call_b_seeded = projr (b_seed call_state (1 OR r_map_reg REG_v0) [0x40000C] (call_cfg, []))"

text \<open>
  Claim C5. Both liveness passes are monotone and terminating. One iteration of the
  forward loop never clears a bit of an \<open>f_livein\<close> or \<open>f_liveout\<close> mask, one iteration
  of the backward loop never clears a bit of a \<open>b_livein\<close> or \<open>b_liveout\<close> mask, and an
  address is pushed on the worklist only for an instruction whose propagated mask
  (\<open>f_livein\<close>, resp. \<open>b_liveout\<close>) has strictly grown (\<open>f_grows\<close>, \<open>b_grows\<close>). Both
  loops are total functions, and each worklist is empty after at most
  \<open>length q + 64 * length rinsns\<close> pops, unless the program aborts earlier.
\<close>

theorem liveness_monotone_terminating:
  "(\<forall>rs addr q s'. r_pass4_step L st rs addr q = Inr s' \<longrightarrow> f_grows st (rs, q) s') \<and>
   (\<forall>rs addr q s'. r_pass5_step L st rs addr q = Inr s' \<longrightarrow> b_grows st (rs, q) s') \<and>
   (\<forall>n rs q. length q + 64 * length rs \<le> n \<longrightarrow>
      r_pass4_fuel n L st (rs, q) = Some (r_pass4_loop L st (rs, q))) \<and>
   (\<forall>n rs q. length q + 64 * length rs \<le> n \<longrightarrow>
      r_pass5_fuel n L st (rs, q) = Some (r_pass5_loop L st (rs, q)))"
proof (intro conjI allI impI)
  fix rs addr q s' assume "r_pass4_step L st rs addr q = Inr s'"
  then show "f_grows st (rs, q) s'" by (rule r_pass4_step_grows)
next
  fix rs addr q s' assume "r_pass5_step L st rs addr q = Inr s'"
  then show "b_grows st (rs, q) s'" by (rule r_pass5_step_grows)
next
  fix n and rs :: "RInsn list" and q :: "u32 list"
  assume "length q + 64 * length rs \<le> n"
  with f_potential_bound[of rs q] have "f_potential (rs, q) \<le> n" by simp
  then show "r_pass4_fuel n L st (rs, q) = Some (r_pass4_loop L st (rs, q))"
    by (rule r_pass4_fuel_enough)
next
  fix n and rs :: "RInsn list" and q :: "u32 list"
  assume "length q + 64 * length rs \<le> n"
  with b_potential_bound[of rs q] have "b_potential (rs, q) \<le> n" by simp
  then show "r_pass5_fuel n L st (rs, q) = Some (r_pass5_loop L st (rs, q))"
    by (rule r_pass5_fuel_enough)
qed

theorem liveness_monotone_terminating_witness:
  "r_pass4_step mips_lib call_state (fst call_seeded) 0x400000 [] =
     Inr (projr (r_pass4_step mips_lib call_state (fst call_seeded) 0x400000 [])) \<and>
   f_grows call_state (fst call_seeded, [])
     (projr (r_pass4_step mips_lib call_state (fst call_seeded) 0x400000 [])) \<and>
   r_pass5_step mips_lib call_state (fst call_b_seeded) 0x40000C [] =
     Inr (projr (r_pass5_step mips_lib call_state (fst call_b_seeded) 0x40000C [])) \<and>
   b_grows call_state (fst call_b_seeded, [])
     (projr (r_pass5_step mips_lib call_state (fst call_b_seeded) 0x40000C [])) \<and>
   r_pass4_fuel 513 mips_lib call_state (fst call_seeded, [0x400000]) =
     Some (r_pass4_loop mips_lib call_state (fst call_seeded, [0x400000])) \<and>
   r_pass5_fuel 513 mips_lib call_state (fst call_b_seeded, [0x40000C]) =
     Some (r_pass5_loop mips_lib call_state (fst call_b_seeded, [0x40000C]))"
proof -
  note T = liveness_monotone_terminating[of mips_lib call_state]
  note T1 = T[THEN conjunct1, rule_format]
    and T2 = T[THEN conjunct2, THEN conjunct1, rule_format]
    and T3 = T[THEN conjunct2, THEN conjunct2, THEN conjunct1, rule_format]
    and T4 = T[THEN conjunct2, THEN conjunct2, THEN conjunct2, rule_format]
  have e4: "r_pass4_step mips_lib call_state (fst call_seeded) 0x400000 [] =
     Inr (projr (r_pass4_step mips_lib call_state (fst call_seeded) 0x400000 []))"
    by code_simp
  have e5: "r_pass5_step mips_lib call_state (fst call_b_seeded) 0x40000C [] =
     Inr (projr (r_pass5_step mips_lib call_state (fst call_b_seeded) 0x40000C []))"
    by code_simp
  have l4: "length [0x400000 :: u32] + 64 * length (fst call_seeded) \<le> 513"
    by code_simp
  have l5: "length [0x40000C :: u32] + 64 * length (fst call_b_seeded) \<le> 513"
    by code_simp
  have g4: "f_grows call_state (fst call_seeded, [])
     (projr (r_pass4_step mips_lib call_state (fst call_seeded) 0x400000 []))"
    by (rule T1[OF e4])
  have g5: "b_grows call_state (fst call_b_seeded, [])
     (projr (r_pass5_step mips_lib call_state (fst call_b_seeded) 0x40000C []))"
    by (rule T2[OF e5])
  have f4: "r_pass4_fuel 513 mips_lib call_state (fst call_seeded, [0x400000]) =
     Some (r_pass4_loop mips_lib call_state (fst call_seeded, [0x400000]))"
    by (rule T3[OF l4])
  have f5: "r_pass5_fuel 513 mips_lib call_state (fst call_b_seeded, [0x40000C]) =
     Some (r_pass5_loop mips_lib call_state (fst call_b_seeded, [0x40000C]))"
    by (rule T4[OF l5])
  show ?thesis by (intro conjI) (rule e4 g4 e5 g5 f4 f5)+
qed



section \<open>Signature inference (\<^verbatim>\<open>r_pass6\<close>)\<close>

text \<open>\<^verbatim>\<open>i.f_liveout & i.b_liveout & r_map_reg(reg)\<close>, as a condition.\<close>

definition liveout_both :: "RInsn \<Rightarrow> nat \<Rightarrow> bool" where
  "liveout_both i reg \<longleftrightarrow> f_liveout i AND b_liveout i AND r_map_reg reg \<noteq> 0"

text \<open>\<^verbatim>\<open>insn.f_livein & insn.b_livein & r_map_reg(reg)\<close>, as a condition.\<close>

definition livein_both :: "RInsn \<Rightarrow> nat \<Rightarrow> bool" where
  "livein_both insn reg \<longleftrightarrow> f_livein insn AND b_livein insn AND r_map_reg reg \<noteq> 0"

text \<open>
  The loop over \<^verbatim>\<open>f.returns\<close>, threading \<^verbatim>\<open>f.nret\<close>. \<^verbatim>\<open>rinsns[addr_to_i(ret)]\<close> is
  an unchecked access.
\<close>

fun r_pass6_returns :: "state \<Rightarrow> u32 list \<Rightarrow> nat \<Rightarrow> error + nat" where
  "r_pass6_returns st [] n = Inr n"
| "r_pass6_returns st (ret # rets) n =
     (let k = addr_to_i st ret in
      if k < length (rinsns st) then
        (let i = rinsns st ! k in
         r_pass6_returns st rets
           (if liveout_both i REG_v1 then 2
            else if liveout_both i REG_v0 \<and> n = 0 then 1
            else n))
      else Inl OutOfBounds)"

text \<open>
  The body of the loop over \<^verbatim>\<open>functions\<close>. \<^verbatim>\<open>rinsns.at(...)\<close> throws when out of
  range, and nothing catches it.
\<close>

definition r_pass6_function :: "state \<Rightarrow> u32 \<Rightarrow> Function \<Rightarrow> error + Function" where
  "r_pass6_function st addr f =
     bindE (r_pass6_returns st (returns f) (nret f)) (\<lambda>n.
       let k = addr_to_i st addr in
       if k < length (rinsns st) then
         (let insn = rinsns st ! k in
          Inr (f\<lparr>nret := n,
                 nargs := fold (\<lambda>i a. if livein_both insn (REG_a0 + i) then 1 + i else a)
                            [0..<4] (nargs f),
                 v0_in := (livein_both insn REG_v0 \<and> \<not> referenced_by_function_pointer f)\<rparr>))
       else Inl Abort)"

fun r_pass6_loop :: "state \<Rightarrow> (u32 \<times> Function) list \<Rightarrow> error + (u32 \<times> Function) list" where
  "r_pass6_loop st [] = Inr []"
| "r_pass6_loop st (it # its) =
     bindE (r_pass6_function st (fst it) (snd it)) (\<lambda>f.
     bindE (r_pass6_loop st its) (\<lambda>fs. Inr ((fst it, f) # fs)))"

definition r_pass6 :: "state \<Rightarrow> error + state" where
  "r_pass6 st = bindE (r_pass6_loop st (functions_tbl st)) (\<lambda>fs. Inr (st\<lparr>functions_tbl := fs\<rparr>))"

text \<open>What the specification says the pass computes.\<close>

definition nret_spec :: "state \<Rightarrow> Function \<Rightarrow> nat" where
  "nret_spec st f =
     (if \<exists>ret\<in>set (returns f). liveout_both (rinsns st ! addr_to_i st ret) REG_v1 then 2
      else if \<exists>ret\<in>set (returns f). liveout_both (rinsns st ! addr_to_i st ret) REG_v0 then 1
      else 0)"


lemma r_pass6_returns_result:
  assumes "r_pass6_returns st rets n = Inr m"
  shows "(\<forall>ret\<in>set rets. addr_to_i st ret < length (rinsns st)) \<and>
         m = (if \<exists>ret\<in>set rets. liveout_both (rinsns st ! addr_to_i st ret) REG_v1 then 2
              else if n = 0 \<and> (\<exists>ret\<in>set rets. liveout_both (rinsns st ! addr_to_i st ret) REG_v0)
              then 1 else n)"
  using assms
proof (induction rets arbitrary: n)
  case Nil
  then show ?case by simp
next
  case (Cons ret rets)
  let ?i = "rinsns st ! addr_to_i st ret"
  let ?n = "if liveout_both ?i REG_v1 then 2 else if liveout_both ?i REG_v0 \<and> n = 0 then 1 else n"
  from Cons.prems have k: "addr_to_i st ret < length (rinsns st)"
    and r: "r_pass6_returns st rets ?n = Inr m"
    by (auto simp: Let_def split: if_splits)
  from Cons.IH[OF r] k show ?case by (auto split: if_splits)
qed

lemma r_pass6_returns_total:
  assumes "\<forall>ret\<in>set rets. addr_to_i st ret < length (rinsns st)"
  shows "\<exists>m. r_pass6_returns st rets n = Inr m"
  using assms by (induction rets arbitrary: n) (auto simp: Let_def)

lemma upt_0_4: "[0..<4] = [0, 1, 2, 3 :: nat]"
  by (simp add: upt_rec numeral_eq_Suc)

lemma nargs_fold:
  "fold (\<lambda>i a. if P i then 1 + i else a) [0..<4] (a0::nat) =
     (if P 3 then 4 else if P 2 then 3 else if P 1 then 2 else if P 0 then 1 else a0)"
  unfolding upt_0_4 by simp

lemma r_pass6_function_result:
  assumes "r_pass6_function st addr f = Inr f'"
  shows "nret f' = (if \<exists>ret\<in>set (returns f). liveout_both (rinsns st ! addr_to_i st ret) REG_v1 then 2
              else if nret f = 0 \<and> (\<exists>ret\<in>set (returns f). liveout_both (rinsns st ! addr_to_i st ret) REG_v0)
              then 1 else nret f)"
    and "nargs f' = (let insn = rinsns st ! addr_to_i st addr in
           if livein_both insn (REG_a0 + 3) then 4 else if livein_both insn (REG_a0 + 2) then 3
           else if livein_both insn (REG_a0 + 1) then 2 else if livein_both insn (REG_a0 + 0) then 1
           else nargs f)"
    and "v0_in f' \<longleftrightarrow> livein_both (rinsns st ! addr_to_i st addr) REG_v0 \<and>
           \<not> referenced_by_function_pointer f"
    and "returns f' = returns f"
    and "addr_to_i st addr < length (rinsns st)"
    and "\<forall>ret\<in>set (returns f). addr_to_i st ret < length (rinsns st)"
proof -
  from assms obtain n where n: "r_pass6_returns st (returns f) (nret f) = Inr n"
    and k: "addr_to_i st addr < length (rinsns st)"
    and f': "f' = f\<lparr>nret := n,
                 nargs := fold (\<lambda>i a. if livein_both (rinsns st ! addr_to_i st addr) (REG_a0 + i)
                                        then 1 + i else a) [0..<4] (nargs f),
                 v0_in := (livein_both (rinsns st ! addr_to_i st addr) REG_v0 \<and>
                           \<not> referenced_by_function_pointer f)\<rparr>"
    by (auto simp: r_pass6_function_def bindE_Inr Let_def split: if_splits)
  note R = r_pass6_returns_result[OF n]
  show "nret f' = (if \<exists>ret\<in>set (returns f). liveout_both (rinsns st ! addr_to_i st ret) REG_v1 then 2
              else if nret f = 0 \<and> (\<exists>ret\<in>set (returns f). liveout_both (rinsns st ! addr_to_i st ret) REG_v0)
              then 1 else nret f)"
    using R by (simp add: f')
  show "nargs f' = (let insn = rinsns st ! addr_to_i st addr in
           if livein_both insn (REG_a0 + 3) then 4 else if livein_both insn (REG_a0 + 2) then 3
           else if livein_both insn (REG_a0 + 1) then 2 else if livein_both insn (REG_a0 + 0) then 1
           else nargs f)"
  proof -
    have "nargs f' = fold (\<lambda>i a. if livein_both (rinsns st ! addr_to_i st addr) (REG_a0 + i)
                                    then 1 + i else a) [0..<4] (nargs f)"
      by (simp add: f')
    then show ?thesis
      unfolding Let_def
        nargs_fold[of "\<lambda>i. livein_both (rinsns st ! addr_to_i st addr) (REG_a0 + i)"] .
  qed
  show "v0_in f' \<longleftrightarrow> livein_both (rinsns st ! addr_to_i st addr) REG_v0 \<and>
           \<not> referenced_by_function_pointer f"
    by (simp add: f')
  show "returns f' = returns f" by (simp add: f')
  show "addr_to_i st addr < length (rinsns st)" by (rule k)
  show "\<forall>ret\<in>set (returns f). addr_to_i st ret < length (rinsns st)" using R by simp
qed

lemma r_pass6_loop_result:
  assumes "r_pass6_loop st its = Inr fs"
  shows "length fs = length its \<and>
         (\<forall>k<length its. fst (fs ! k) = fst (its ! k) \<and>
            r_pass6_function st (fst (its ! k)) (snd (its ! k)) = Inr (snd (fs ! k)))"
  using assms
proof (induction its arbitrary: fs)
  case Nil
  then show ?case by simp
next
  case (Cons it its)
  from Cons.prems obtain f fs' where f: "r_pass6_function st (fst it) (snd it) = Inr f"
    and l: "r_pass6_loop st its = Inr fs'" and fs: "fs = (fst it, f) # fs'"
    by (auto simp: bindE_Inr)
  from Cons.IH[OF l] f show ?case by (auto simp: fs nth_Cons split: nat.splits)
qed

lemma r_pass6_result:
  assumes "r_pass6 st = Inr st'" "k < length (functions_tbl st)"
  shows "length (functions_tbl st') = length (functions_tbl st)"
    and "fst (functions_tbl st' ! k) = fst (functions_tbl st ! k)"
    and "r_pass6_function st (fst (functions_tbl st ! k)) (snd (functions_tbl st ! k))
           = Inr (snd (functions_tbl st' ! k))"
    and "rinsns st' = rinsns st"
proof -
  from assms(1) obtain fs where l: "r_pass6_loop st (functions_tbl st) = Inr fs"
    and st': "st' = st\<lparr>functions_tbl := fs\<rparr>"
    by (auto simp: r_pass6_def bindE_Inr)
  from r_pass6_loop_result[OF l] assms(2)
  show "length (functions_tbl st') = length (functions_tbl st)"
    and "fst (functions_tbl st' ! k) = fst (functions_tbl st ! k)"
    and "r_pass6_function st (fst (functions_tbl st ! k)) (snd (functions_tbl st ! k))
           = Inr (snd (functions_tbl st' ! k))"
    by (simp_all add: st')
  show "rinsns st' = rinsns st" by (simp add: st')
qed

lemma r_pass6_loop_total:
  assumes "\<forall>it\<in>set its. addr_to_i st (fst it) < length (rinsns st) \<and>
             (\<forall>ret\<in>set (returns (snd it)). addr_to_i st ret < length (rinsns st))"
  shows "\<exists>fs. r_pass6_loop st its = Inr fs"
  using assms
proof (induction its)
  case Nil
  then show ?case by simp
next
  case (Cons it its)
  then obtain m where "r_pass6_returns st (returns (snd it)) (nret (snd it)) = Inr m"
    using r_pass6_returns_total[of "returns (snd it)" st "nret (snd it)"] by auto
  moreover have "addr_to_i st (fst it) < length (rinsns st)" using Cons.prems by simp
  ultimately obtain f where "r_pass6_function st (fst it) (snd it) = Inr f"
    by (auto simp: r_pass6_function_def bindE_def Let_def)
  moreover obtain fs where "r_pass6_loop st its = Inr fs" using Cons by auto
  ultimately show ?case by (simp add: bindE_def)
qed

text \<open>
  Claim C6. For every function (whose \<open>nret\<close> is still the 0 it was created with),
  \<^verbatim>\<open>r_pass6\<close> computes: \<open>nret = 2\<close> if some return has \<open>$v1\<close> in both its forward and
  its backward liveout mask, else 1 if some return has \<open>$v0\<close> in both, else 0 (this is
  \<open>nret_spec\<close>); \<open>nargs = 1 + i\<close> for the highest \<open>i < 4\<close> with \<open>$a(i)\<close> in both livein
  masks of the entry instruction; and \<open>v0_in\<close> iff \<open>$v0\<close> is in both livein masks of the
  entry and the function is not referenced by a function pointer.
\<close>

theorem r_pass6_signatures:
  assumes run: "r_pass6 st = Inr st'"
    and k: "k < length (functions_tbl st)"
    and init: "nret (snd (functions_tbl st ! k)) = 0"
  shows "fst (functions_tbl st' ! k) = fst (functions_tbl st ! k) \<and>
         nret (snd (functions_tbl st' ! k)) = nret_spec st (snd (functions_tbl st ! k)) \<and>
         (\<forall>i<4. livein_both (rinsns st ! addr_to_i st (fst (functions_tbl st ! k))) (REG_a0 + i) \<and>
                 (\<forall>j<4. i < j \<longrightarrow>
                    \<not> livein_both (rinsns st ! addr_to_i st (fst (functions_tbl st ! k))) (REG_a0 + j))
                 \<longrightarrow> nargs (snd (functions_tbl st' ! k)) = 1 + i) \<and>
         (v0_in (snd (functions_tbl st' ! k)) \<longleftrightarrow>
            livein_both (rinsns st ! addr_to_i st (fst (functions_tbl st ! k))) REG_v0 \<and>
            \<not> referenced_by_function_pointer (snd (functions_tbl st ! k)))"
proof -
  let ?addr = "fst (functions_tbl st ! k)" and ?f = "snd (functions_tbl st ! k)"
  let ?f' = "snd (functions_tbl st' ! k)"
  let ?insn = "rinsns st ! addr_to_i st ?addr"
  note R = r_pass6_result[OF run k]
  note F = r_pass6_function_result[OF R(3)]
  have n: "nret ?f' = nret_spec st ?f" using F(1) init by (simp add: nret_spec_def)
  have a: "nargs ?f' = 1 + i"
    if "i < 4" "livein_both ?insn (REG_a0 + i)"
      "\<forall>j<4. i < j \<longrightarrow> \<not> livein_both ?insn (REG_a0 + j)" for i
  proof -
    have ns: "\<And>j. j < 4 \<Longrightarrow> i < j \<Longrightarrow> \<not> livein_both ?insn (REG_a0 + j)"
      using that(3) by blast
    from that(1) consider "i = 0" | "i = 1" | "i = 2" | "i = 3" by linarith
    then show ?thesis
      using F(2) that(2) ns[of 1] ns[of 2] ns[of 3] by cases (simp_all add: Let_def)
  qed
  show ?thesis using R(2) n a F(3) by blast
qed




text \<open>
  A function with two returns, \<^verbatim>\<open>beq $a0, $zero, L; nop; jr $ra; nop;
  L: addiu $v0, $zero, 1; jr $ra; nop\<close>: only the second path defines \<open>$v0\<close>.
\<close>

definition two_returns_program :: "RInsn list" where
  "two_returns_program =
     [fresh_insn ''cpu_beq'' 0x10800003 0x400000,
      fresh_insn ''cpu_nop'' 0 0x400004,
      fresh_insn ''cpu_jr'' 0x03E00008 0x400008,
      fresh_insn ''cpu_nop'' 0 0x40000C,
      fresh_insn ''cpu_addiu'' 0x24020001 0x400010,
      fresh_insn ''cpu_jr'' 0x03E00008 0x400014,
      fresh_insn ''cpu_nop'' 0 0x400018,
      sentinel_insn 0x40001C]"

definition two_returns_state :: state where
  "two_returns_state = example_state two_returns_program
     [(0x400000, empty_Function\<lparr>returns := [0x40000C, 0x400018]\<rparr>)]"

definition passes_3_to_5 :: "rabbitizer \<Rightarrow> state \<Rightarrow> error + state" where
  "passes_3_to_5 L st = bindE (r_pass3 L st) (\<lambda>st. bindE (r_pass4 L st) (r_pass5 L))"

definition live_masks :: "RInsn \<Rightarrow> u64 \<times> u64 \<times> u64 \<times> u64" where
  "live_masks r = (f_livein r, f_liveout r, b_livein r, b_liveout r)"

definition with_live_masks :: "RInsn \<Rightarrow> u64 \<times> u64 \<times> u64 \<times> u64 \<Rightarrow> RInsn" where
  "with_live_masks r m = (case m of (fi, fo, bi, bo) \<Rightarrow>
     r\<lparr>f_livein := fi, f_liveout := fo, b_livein := bi, b_liveout := bo\<rparr>)"

text \<open>
  The example with the masks that the two liveness passes compute for it (lemma
  \<open>two_returns_live_masks\<close>); the edge lists, which \<^verbatim>\<open>r_pass6\<close> does not read, are
  left empty.
\<close>

definition two_returns_live :: state where
  "two_returns_live = two_returns_state\<lparr>rinsns := map2 with_live_masks two_returns_program
     [(0x40000063, 0x40000063, 0x10000002B, 0x10000000B),
      (0x40000063, 0x40000063, 0x10000000B, 0x10000000B),
      (0x40000063, 0x40000063, 0x100000009, 9),
      (0x40000063, 0x40000063, 9, 9),
      (0x40000063, 0x4000006B, 0x100000003, 0x100000009),
      (0x4000006B, 0x4000006B, 0x100000009, 9),
      (0x4000006B, 0x4000006B, 9, 9),
      (0, 0, 0, 0)]\<rparr>"

lemma two_returns_live_masks:
  "map_sum id (\<lambda>st. (map live_masks (rinsns st), functions_tbl st))
     (passes_3_to_5 mips_lib two_returns_state) =
   Inr (map live_masks (rinsns two_returns_live), functions_tbl two_returns_live)"
  by code_simp

definition two_returns_signed :: state where
  "two_returns_signed = projr (r_pass6 two_returns_live)"

lemma two_returns_signed_eq: "r_pass6 two_returns_live = Inr two_returns_signed"
  by code_simp

theorem r_pass6_signatures_witness:
  "r_pass6 two_returns_live = Inr two_returns_signed \<and>
   nret (snd (functions_tbl two_returns_live ! 0)) = 0 \<and>
   nret_spec two_returns_live (snd (functions_tbl two_returns_live ! 0)) = 1 \<and>
   nret (snd (functions_tbl two_returns_signed ! 0)) = 1 \<and>
   nargs (snd (functions_tbl two_returns_signed ! 0)) = 1 + 0 \<and>
   \<not> v0_in (snd (functions_tbl two_returns_signed ! 0))"
proof -
  let ?insn = "rinsns two_returns_live ! addr_to_i two_returns_live (fst (functions_tbl two_returns_live ! 0))"
  have e: "r_pass6 two_returns_live = Inr two_returns_signed" by code_simp
  have k: "0 < length (functions_tbl two_returns_live)" by code_simp
  have i: "nret (snd (functions_tbl two_returns_live ! 0)) = 0" by code_simp
  have s: "nret_spec two_returns_live (snd (functions_tbl two_returns_live ! 0)) = 1" by code_simp
  have a0: "livein_both ?insn (REG_a0 + 0)" by code_simp
  have a1: "\<not> livein_both ?insn (REG_a0 + 1)" by code_simp
  have a2: "\<not> livein_both ?insn (REG_a0 + 2)" by code_simp
  have a3: "\<not> livein_both ?insn (REG_a0 + 3)" by code_simp
  have "\<And>j::nat. j < 4 \<Longrightarrow> 0 < j \<Longrightarrow> j = 1 \<or> j = 2 \<or> j = 3" by arith
  with a1 a2 a3 have "\<forall>j<4. 0 < j \<longrightarrow> \<not> livein_both ?insn (REG_a0 + j)" by blast
  with a0 have a: "livein_both ?insn (REG_a0 + 0) \<and>
      (\<forall>j<4. 0 < j \<longrightarrow> \<not> livein_both ?insn (REG_a0 + j))" by blast
  have v: "\<not> livein_both ?insn REG_v0" by code_simp
  note T = r_pass6_signatures[OF e k i]
  from T s have n: "nret (snd (functions_tbl two_returns_signed ! 0)) = 1" by simp
  have g: "nargs (snd (functions_tbl two_returns_signed ! 0)) = 1 + 0"
    using T[THEN conjunct2, THEN conjunct2, THEN conjunct1, rule_format, of 0] a by simp
  from T v have w: "\<not> v0_in (snd (functions_tbl two_returns_signed ! 0))" by blast
  from e i s n g w show ?thesis by (intro conjI)
qed



text \<open>
  Claim C3, amended. For every function whose inferred \<open>nret\<close> equals 1 (it was 0 before
  the pass), at least one return instruction has \<open>$v0\<close> in both its forward and its
  backward liveout mask, and no return instruction has \<open>$v1\<close> in both.
\<close>

theorem r_pass6_nret_one:
  assumes run: "r_pass6 st = Inr st'"
    and k: "k < length (functions_tbl st)"
    and init: "nret (snd (functions_tbl st ! k)) = 0"
    and one: "nret (snd (functions_tbl st' ! k)) = 1"
  shows "(\<exists>ret\<in>set (returns (snd (functions_tbl st' ! k))).
            liveout_both (rinsns st' ! addr_to_i st' ret) REG_v0) \<and>
         (\<forall>ret\<in>set (returns (snd (functions_tbl st' ! k))).
            \<not> liveout_both (rinsns st' ! addr_to_i st' ret) REG_v1)"
proof -
  let ?f = "snd (functions_tbl st ! k)" and ?f' = "snd (functions_tbl st' ! k)"
  note R = r_pass6_result[OF run k]
  note F = r_pass6_function_result[OF R(3)]
  from run have a: "addr_to_i st' = addr_to_i st"
    by (auto simp: r_pass6_def bindE_Inr addr_to_i_def fun_eq_iff)
  from F(1) init one have
    "(\<exists>ret\<in>set (returns ?f). liveout_both (rinsns st ! addr_to_i st ret) REG_v0) \<and>
     (\<forall>ret\<in>set (returns ?f). \<not> liveout_both (rinsns st ! addr_to_i st ret) REG_v1)"
    by (auto split: if_splits)
  then show ?thesis by (simp add: F(4) R(4) a)
qed



theorem r_pass6_nret_one_witness:
  "r_pass6 two_returns_live = Inr two_returns_signed \<and>
   nret (snd (functions_tbl two_returns_live ! 0)) = 0 \<and>
   nret (snd (functions_tbl two_returns_signed ! 0)) = 1 \<and>
   (\<exists>ret\<in>set (returns (snd (functions_tbl two_returns_signed ! 0))).
      liveout_both (rinsns two_returns_signed ! addr_to_i two_returns_signed ret) REG_v0)"
proof -
  have e: "r_pass6 two_returns_live = Inr two_returns_signed" by code_simp
  have k: "0 < length (functions_tbl two_returns_live)" by code_simp
  have i: "nret (snd (functions_tbl two_returns_live ! 0)) = 0" by code_simp
  have o: "nret (snd (functions_tbl two_returns_signed ! 0)) = 1" by code_simp
  from r_pass6_nret_one[OF e k i o] have
    "\<exists>ret\<in>set (returns (snd (functions_tbl two_returns_signed ! 0))).
      liveout_both (rinsns two_returns_signed ! addr_to_i two_returns_signed ret) REG_v0"
    by (rule conjunct1)
  with e i o show ?thesis by (intro conjI)
qed



text \<open>
  Claim C3 as stated fails on the example: its \<open>nret\<close> is 1 because of the second
  return, while the first return, at index 3, has \<open>$v0\<close> in its backward liveout only.
\<close>

theorem r_pass6_nret_one_counterexample:
  "r_pass6 two_returns_live = Inr two_returns_signed \<and>
   fst (functions_tbl two_returns_signed ! 0) = 0x400000 \<and>
   nret (snd (functions_tbl two_returns_signed ! 0)) = 1 \<and>
   returns (snd (functions_tbl two_returns_signed ! 0)) = [0x40000C, 0x400018] \<and>
   addr_to_i two_returns_signed 0x40000C = 3 \<and>
   f_liveout (rinsns two_returns_signed ! 3) = 0x40000063 \<and>
   b_liveout (rinsns two_returns_signed ! 3) = 9 \<and>
   r_map_reg REG_v0 = 8 \<and>
   \<not> liveout_both (rinsns two_returns_signed ! addr_to_i two_returns_signed 0x40000C) REG_v0"
  by code_simp


section \<open>Symbol resolution (\<^verbatim>\<open>r_pass1\<close>)\<close>

definition add_function :: "u32 \<Rightarrow> state \<Rightarrow> state" where
  "add_function addr st =
     (if text_vaddr st \<le> addr \<and> addr < text_vaddr st + text_section_len st
      then st\<lparr>functions_tbl := touch_function (functions_tbl st) addr\<rparr>
      else st)"

definition get_dest_reg :: "RabbitizerInstruction \<Rightarrow> nat" where
  "get_dest_reg instr =
     (if modifiesRt (descriptor instr) then RAB_INSTR_GET_rt instr
      else if modifiesRd (descriptor instr) then RAB_INSTR_GET_rd instr
      else REG_zero)"

text \<open>
  The in-place rewrite of an opcode:
  \<^verbatim>\<open>instruction.uniqueId = uid; instruction.descriptor = &Descriptors[descr_of]\<close>.
  In most places \<open>descr_of\<close> is \<open>uid\<close>; in some the source indexes the table with the id
  of another instruction.
\<close>

definition set_id :: "rabbitizer \<Rightarrow> instr_id \<Rightarrow> instr_id \<Rightarrow> RInsn \<Rightarrow> RInsn" where
  "set_id L uid descr_of insn =
     insn\<lparr>instruction := (instruction insn)\<lparr>uniqueId := uid, descriptor := Descriptors L descr_of\<rparr>\<rparr>"

definition upd_insn :: "nat \<Rightarrow> (RInsn \<Rightarrow> RInsn) \<Rightarrow> state \<Rightarrow> state" where
  "upd_insn k f st = st\<lparr>rinsns := (rinsns st)[k := f (rinsns st ! k)]\<rparr>"

text \<open>\<^verbatim>\<open>(imm + gp_value_adj) / sizeof(uint32_t)\<close>, computed on 32-bit unsigned values.\<close>

definition got_entry_of :: "state \<Rightarrow> u32 \<Rightarrow> nat" where
  "got_entry_of st imm = unat ((imm + gp_value_adj st) div 4)"

definition lui_base_ids :: "instr_id list" where
  "lui_base_ids = [''cpu_lw'', ''cpu_ld'', ''cpu_addiu'', ''cpu_add'', ''cpu_sub'', ''cpu_subu'']"

definition lui_memop_ids :: "instr_id list" where
  "lui_memop_ids = [''cpu_lb'', ''cpu_lbu'', ''cpu_sb'', ''cpu_lh'', ''cpu_lhu'', ''cpu_sh'',
     ''cpu_lw'', ''cpu_sw'', ''cpu_ldc1'', ''cpu_lwc1'', ''cpu_swc1'']"

text \<open>
  The linking of \<^verbatim>\<open>r_link_with_lui\<close>, once a GOT-local \<^verbatim>\<open>lw\<close> at \<open>search\<close> is found
  for the user at \<open>offset\<close>.
\<close>

definition lui_link :: "rabbitizer \<Rightarrow> nat \<Rightarrow> nat \<Rightarrow> u32 \<Rightarrow> state \<Rightarrow> error + state" where
  "lui_link L offset search addr st =
     (let st = upd_insn search (\<lambda>r. r\<lparr>linked_insn := int offset, linked_value := addr\<rparr>) st;
          st = upd_insn offset (\<lambda>r. r\<lparr>linked_insn := int search, linked_value := addr\<rparr>) st;
          st = upd_insn search
                 (\<lambda>r. (set_id L ''cpu_ori'' ''cpu_ori'' (r\<lparr>patched := True\<rparr>))\<lparr>patched_addr := addr\<rparr>) st;
          uid = uniqueId (instruction (rinsns st ! offset))
      in if uid = ''cpu_addiu'' then
           (let st = upd_insn offset
                       (\<lambda>r. set_id L ''cpu_move'' (uniqueId (instruction (rinsns st ! search)))
                               (r\<lparr>patched := True\<rparr>)) st
            in Inr (if text_vaddr st \<le> addr \<and> addr < text_vaddr st + text_section_len st
                    then add_function addr st else st))
         else if uid \<in> set lui_memop_ids then
           Inr (upd_insn offset (\<lambda>r. r\<lparr>patched := True, patched_addr := 0\<rparr>) st)
         else Inl AssertFailed)"

text \<open>
  The backward scan of \<^verbatim>\<open>r_link_with_lui\<close> over the indices \<open>offset - 1\<close> down to
  \<open>max 0 (offset - 128)\<close>; returning without a recursive call is \<^verbatim>\<open>goto end\<close>.
\<close>

fun r_link_with_lui_loop ::
  "rabbitizer \<Rightarrow> nat \<Rightarrow> nat \<Rightarrow> u32 \<Rightarrow> nat list \<Rightarrow> state \<Rightarrow> error + state" where
  "r_link_with_lui_loop L offset reg mem_imm [] st = Inr st"
| "r_link_with_lui_loop L offset reg mem_imm (search # rest) st =
     (let instr = instruction (rinsns st ! search); uid = uniqueId instr in
      if uid = ''cpu_lui'' then
        (if reg = RAB_INSTR_GET_rt instr then Inr st
         else r_link_with_lui_loop L offset reg mem_imm rest st)
      else if uid \<in> set lui_base_ids then
        (if reg = get_dest_reg instr then
           (if uid = ''cpu_lw'' \<and> RAB_INSTR_GET_rs instr = REG_gp then
              (let got_entry = got_entry_of st (getProcessedImmediate L instr) in
               if got_entry < length (got_locals st)
               then lui_link L offset search (got_locals st ! got_entry + mem_imm) st
               else Inr st)
            else Inr st)
         else r_link_with_lui_loop L offset reg mem_imm rest st)
      else if uid = ''cpu_jr'' then
        (if RAB_INSTR_GET_rd instr = REG_ra \<and> 2 \<le> offset - search then Inr st
         else r_link_with_lui_loop L offset reg mem_imm rest st)
      else r_link_with_lui_loop L offset reg mem_imm rest st)"

definition r_link_with_lui :: "rabbitizer \<Rightarrow> nat \<Rightarrow> nat \<Rightarrow> u32 \<Rightarrow> state \<Rightarrow> error + state" where
  "r_link_with_lui L offset reg mem_imm st =
     (if offset < length (rinsns st)
      then r_link_with_lui_loop L offset reg mem_imm (rev [offset - 128..<offset]) st
      else Inl OutOfBounds)"

text \<open>The two linking branches of \<^verbatim>\<open>r_link_with_jalr\<close>.\<close>

definition jalr_link :: "rabbitizer \<Rightarrow> nat \<Rightarrow> nat \<Rightarrow> state \<Rightarrow> state" where
  "jalr_link L offset search st =
     (let st = upd_insn search (\<lambda>r. r\<lparr>linked_insn := int offset\<rparr>) st;
          st = upd_insn offset
                 (\<lambda>r. r\<lparr>linked_insn := int search,
                         linked_value := linked_value (rinsns st ! search)\<rparr>) st;
          st = upd_insn offset
                 (\<lambda>r. set_id L ''cpu_jal'' (uniqueId (instruction (rinsns st ! search)))
                         (r\<lparr>patched := True,
                            patched_addr := getProcessedImmediate L (instruction r)\<rparr>)) st;
          st = upd_insn search
                 (\<lambda>r. (set_id L ''cpu_nop'' ''cpu_nop'' (r\<lparr>patched := True\<rparr>))
                         \<lparr>is_global_got_memop := False\<rparr>) st
      in add_function (linked_value (rinsns st ! search)) st)"

definition jalr_link_addiu :: "nat \<Rightarrow> nat \<Rightarrow> state \<Rightarrow> state" where
  "jalr_link_addiu offset search st =
     (let first = linked_insn (rinsns st ! search);
          st = upd_insn search (\<lambda>r. r\<lparr>linked_insn := int offset\<rparr>) st
      in upd_insn offset
           (\<lambda>r. r\<lparr>linked_insn := first, linked_value := linked_value (rinsns st ! search)\<rparr>) st)"

fun r_link_with_jalr_loop :: "rabbitizer \<Rightarrow> nat \<Rightarrow> nat list \<Rightarrow> state \<Rightarrow> state" where
  "r_link_with_jalr_loop L offset [] st = st"
| "r_link_with_jalr_loop L offset (search # rest) st =
     (let r = rinsns st ! search; instr = instruction r; uid = uniqueId instr in
      if get_dest_reg instr = REG_t9 then
        (if uid = ''cpu_lw'' \<or> uid = ''cpu_ori'' then
           (if is_global_got_memop r \<or> uid = ''cpu_ori'' then jalr_link L offset search st
            else st)
         else if uid = ''cpu_addiu'' then
           (if linked_insn r \<noteq> - 1 then jalr_link_addiu offset search st else st)
         else if uid \<in> set [''cpu_ld'', ''cpu_addu'', ''cpu_add'', ''cpu_sub'', ''cpu_subu''] then st
         else r_link_with_jalr_loop L offset rest st)
      else if uid = ''cpu_jr'' \<and> RAB_INSTR_GET_rs instr = REG_ra then st
      else r_link_with_jalr_loop L offset rest st)"

definition r_link_with_jalr :: "rabbitizer \<Rightarrow> nat \<Rightarrow> state \<Rightarrow> error + state" where
  "r_link_with_jalr L offset st =
     (if offset < length (rinsns st)
      then Inr (r_link_with_jalr_loop L offset (rev [offset - 128..<offset]) st)
      else Inl OutOfBounds)"

end
